theory Spec2Isabelle
  imports Complex_Main "HOL-Library.Signed_Division" "HOL-Library.Multiset"
begin

chapter \<open>The model of \<open>data_output/app.js\<close>\<close>

section \<open>JavaScript values\<close>

text \<open>
  A JavaScript number is an IEEE double. The model keeps the four kinds of number that
  the card computations tell apart: a finite number, \<open>Infinity\<close>, \<open>-Infinity\<close> and
  \<open>NaN\<close>. A finite double is idealised as the real number it stands for: rounding and
  overflow are not modelled (but for \<open>parseInt\<close> of a string, below), and the two zeros
  are identified (so the sign of \<open>x / 0\<close> is taken from \<open>x\<close> alone).
\<close>

datatype jsnum = Num real | PosInf | NegInf | NaN

text \<open>
  The values a field of a fetched JSON record can hold, as far as the cards read them:
  \<open>undefined\<close> (the field is missing), \<open>null\<close>, a boolean, a number or a string.
  A string is a list of 8-bit characters, read as the code units U+0000 to U+00FF.
\<close>

datatype jsval = JUndefined | JNull | JBool bool | JNum jsnum | JStr string

text \<open>Truthiness, as \<^verbatim>\<open>!x\<close> and \<^verbatim>\<open>if (x)\<close> decide it.\<close>

fun js_truthy :: "jsval \<Rightarrow> bool" where
  "js_truthy JUndefined = False"
| "js_truthy JNull = False"
| "js_truthy (JBool b) = b"
| "js_truthy (JNum (Num r)) = (r \<noteq> 0)"
| "js_truthy (JNum NaN) = False"
| "js_truthy (JNum PosInf) = True"
| "js_truthy (JNum NegInf) = True"
| "js_truthy (JStr s) = (s \<noteq> [])"

subsection \<open>Arithmetic and comparison\<close>

text \<open>The operators \<^verbatim>\<open>/\<close>, \<^verbatim>\<open>*\<close> and \<^verbatim>\<open>-\<close> on numbers. None of them throws.\<close>

fun js_div :: "jsnum \<Rightarrow> jsnum \<Rightarrow> jsnum" where
  "js_div (Num a) (Num b) =
     (if b \<noteq> 0 then Num (a / b)
      else if a = 0 then NaN else if 0 < a then PosInf else NegInf)"
| "js_div (Num a) PosInf = Num 0"
| "js_div (Num a) NegInf = Num 0"
| "js_div PosInf (Num b) = (if 0 \<le> b then PosInf else NegInf)"
| "js_div NegInf (Num b) = (if 0 \<le> b then NegInf else PosInf)"
| "js_div _ _ = NaN"

fun js_mul :: "jsnum \<Rightarrow> jsnum \<Rightarrow> jsnum" where
  "js_mul (Num a) (Num b) = Num (a * b)"
| "js_mul (Num a) PosInf = (if a = 0 then NaN else if 0 < a then PosInf else NegInf)"
| "js_mul (Num a) NegInf = (if a = 0 then NaN else if 0 < a then NegInf else PosInf)"
| "js_mul PosInf (Num b) = (if b = 0 then NaN else if 0 < b then PosInf else NegInf)"
| "js_mul NegInf (Num b) = (if b = 0 then NaN else if 0 < b then NegInf else PosInf)"
| "js_mul PosInf PosInf = PosInf"
| "js_mul PosInf NegInf = NegInf"
| "js_mul NegInf PosInf = NegInf"
| "js_mul NegInf NegInf = PosInf"
| "js_mul _ _ = NaN"

fun js_sub :: "jsnum \<Rightarrow> jsnum \<Rightarrow> jsnum" where
  "js_sub (Num a) (Num b) = Num (a - b)"
| "js_sub (Num a) PosInf = NegInf"
| "js_sub (Num a) NegInf = PosInf"
| "js_sub PosInf (Num b) = PosInf"
| "js_sub NegInf (Num b) = NegInf"
| "js_sub PosInf NegInf = PosInf"
| "js_sub NegInf PosInf = NegInf"
| "js_sub _ _ = NaN"

text \<open>
  \<^verbatim>\<open>a < b\<close> and \<^verbatim>\<open>a <= b\<close>; every comparison with \<open>NaN\<close> is false.
  \<^verbatim>\<open>a > b\<close> is \<^verbatim>\<open>b < a\<close>, and \<^verbatim>\<open>a >= b\<close> is \<^verbatim>\<open>b <= a\<close>.
\<close>

fun js_lt :: "jsnum \<Rightarrow> jsnum \<Rightarrow> bool" where
  "js_lt (Num a) (Num b) = (a < b)"
| "js_lt (Num a) PosInf = True"
| "js_lt NegInf (Num b) = True"
| "js_lt NegInf PosInf = True"
| "js_lt _ _ = False"

fun js_le :: "jsnum \<Rightarrow> jsnum \<Rightarrow> bool" where
  "js_le (Num a) (Num b) = (a \<le> b)"
| "js_le NaN _ = False"
| "js_le _ NaN = False"
| "js_le NegInf _ = True"
| "js_le _ PosInf = True"
| "js_le _ _ = False"

definition js_gt :: "jsnum \<Rightarrow> jsnum \<Rightarrow> bool" where
  "js_gt a b = js_lt b a"

definition js_ge :: "jsnum \<Rightarrow> jsnum \<Rightarrow> bool" where
  "js_ge a b = js_le b a"

text \<open>\<^verbatim>\<open>Number.isFinite\<close>.\<close>

fun isFinite :: "jsnum \<Rightarrow> bool" where
  "isFinite (Num r) = True"
| "isFinite _ = False"

text \<open>
  A numeric operator applied to a value that is a number or \<open>undefined\<close>:
  \<open>undefined\<close> converts to \<open>NaN\<close>.
\<close>

definition to_number :: "jsnum option \<Rightarrow> jsnum" where
  "to_number v = (case v of None \<Rightarrow> NaN | Some x \<Rightarrow> x)"

subsection \<open>Reading numbers from strings\<close>

text \<open>
  \<open>\d\<close> of a regular expression and the decimal digits of \<open>parseInt\<close> and
  \<open>parseFloat\<close> are \<open>0\<close> to \<open>9\<close>. White space (\<open>\s\<close>, \<open>trim\<close>, the leading
  white space the parsers skip) is tab, line feed, vertical tab, form feed, carriage
  return, space and no-break space: the white space and line terminators of ECMAScript
  among the 8-bit characters.
\<close>

definition is_digit :: "char \<Rightarrow> bool" where
  "is_digit c = (c \<in> set ''0123456789'')"

definition is_hex_digit :: "char \<Rightarrow> bool" where
  "is_hex_digit c = (c \<in> set ''0123456789abcdefABCDEF'')"

definition is_space :: "char \<Rightarrow> bool" where
  "is_space c =
     (c \<in> set [CHR 0x09, CHR 0x0A, CHR 0x0B, CHR 0x0C, CHR 0x0D, CHR 0x20, CHR 0xA0])"

definition digit_val :: "char \<Rightarrow> nat" where
  "digit_val c =
     (if is_digit c then of_char c - 48
      else if c \<in> set ''abcdef'' then of_char c - 87
      else of_char c - 55)"

definition digits_val :: "nat \<Rightarrow> string \<Rightarrow> nat" where
  "digits_val radix ds = foldl (\<lambda>n c. radix * n + digit_val c) 0 ds"

text \<open>\<^verbatim>\<open>String.prototype.trim\<close> and \<^verbatim>\<open>String.prototype.startsWith\<close>.\<close>

definition trim :: "string \<Rightarrow> string" where
  "trim s = rev (dropWhile is_space (rev (dropWhile is_space s)))"

definition starts_with :: "string \<Rightarrow> string \<Rightarrow> bool" where
  "starts_with s p = (take (length p) s = p)"

text \<open>An optional sign in front of a numeral: the sign and the rest.\<close>

fun split_sign :: "string \<Rightarrow> real \<times> string" where
  "split_sign [] = (1, [])"
| "split_sign (c # cs) =
     (if c = CHR ''-'' then (-1, cs) else if c = CHR ''+'' then (1, cs) else (1, c # cs))"

definition scale10 :: "real \<Rightarrow> int \<Rightarrow> real" where
  "scale10 x e = (if 0 \<le> e then x * 10 ^ nat e else x / 10 ^ nat (- e))"

text \<open>
  The value of the exponent part (\<open>e\<close> or \<open>E\<close>, an optional sign, digits) at the
  start of a string; 0 when there is none, which leaves the number unscaled.
\<close>

definition exponent_part :: "string \<Rightarrow> int" where
  "exponent_part s =
     (case s of
        [] \<Rightarrow> 0
      | c # cs \<Rightarrow>
          if c = CHR ''e'' \<or> c = CHR ''E'' then
            (case cs of
               [] \<Rightarrow> 0
             | d # ds \<Rightarrow>
                 if d = CHR ''-'' then - int (digits_val 10 (takeWhile is_digit ds))
                 else if d = CHR ''+'' then int (digits_val 10 (takeWhile is_digit ds))
                 else int (digits_val 10 (takeWhile is_digit cs)))
          else 0)"

text \<open>
  The longest prefix that is an unsigned decimal literal (digits, an optional point and
  fraction digits, an optional exponent; or a point and fraction digits), as a value;
  \<open>None\<close> when no prefix is one.
\<close>

definition unsigned_decimal :: "string \<Rightarrow> real option" where
  "unsigned_decimal s =
     (let ip = takeWhile is_digit s; r1 = dropWhile is_digit s in
      case r1 of
        [] \<Rightarrow> if ip = [] then None else Some (real (digits_val 10 ip))
      | c # r2 \<Rightarrow>
          if c = CHR ''.'' then
            (let fp = takeWhile is_digit r2; r3 = dropWhile is_digit r2 in
             if ip = [] \<and> fp = [] then None
             else Some (scale10 (real (digits_val 10 ip) + real (digits_val 10 fp) / 10 ^ length fp)
                          (exponent_part r3)))
          else if ip = [] then None
          else Some (scale10 (real (digits_val 10 ip)) (exponent_part r1)))"

text \<open>
  \<^verbatim>\<open>parseFloat(string)\<close>: skip leading white space, read the longest prefix that is a
  signed decimal literal or \<open>Infinity\<close>; \<open>NaN\<close> when there is none.
\<close>

definition parseFloat :: "string \<Rightarrow> jsnum" where
  "parseFloat input =
     (case split_sign (dropWhile is_space input) of
        (sg, s) \<Rightarrow>
          if starts_with s ''Infinity'' then (if sg < 0 then NegInf else PosInf)
          else (case unsigned_decimal s of None \<Rightarrow> NaN | Some v \<Rightarrow> Num (sg * v)))"

text \<open>
  \<open>parseInt\<close> reads an integer of any length and returns a number, that is the
  double nearest to the integer, a tie going to the even significand; this is the one
  place where the model rounds. An integer below \<open>2^53\<close> is a double. A larger one has
  \<open>53 + e\<close> binary digits, of which a double keeps the upper 53: \<open>q\<close>, one more when
  the \<open>e\<close> lower digits \<open>r\<close> are above half of \<open>2^e\<close>, or are half of it and \<open>q\<close> is
  odd. What rounds to \<open>2^1024\<close> or more is \<open>Infinity\<close>.
\<close>

fun bit_length :: "nat \<Rightarrow> nat" where
  "bit_length n = (if n = 0 then 0 else Suc (bit_length (n div 2)))"

declare bit_length.simps [simp del]

definition round_to_double :: "nat \<Rightarrow> jsnum" where
  "round_to_double n =
     (if n < 2 ^ 53 then Num (real n)
      else
        (let e = bit_length n - 53;
             q = n div 2 ^ e;
             r = n mod 2 ^ e;
             q' = (if 2 ^ (e - 1) < r \<or> (r = 2 ^ (e - 1) \<and> odd q) then q + 1 else q)
         in if 2 ^ 1024 \<le> q' * 2 ^ e then PosInf else Num (real (q' * 2 ^ e))))"

text \<open>
  \<^verbatim>\<open>parseInt(string)\<close> with no radix: skip leading white space, read a sign, switch
  to radix 16 after \<open>0x\<close> or \<open>0X\<close>, read the longest run of digits; \<open>NaN\<close> when the
  run is empty, and otherwise the double nearest to the signed integer that the run
  denotes (all of its digits are read).
\<close>

definition parseInt :: "string \<Rightarrow> jsnum" where
  "parseInt input =
     (case split_sign (dropWhile is_space input) of
        (sg, s) \<Rightarrow>
          if starts_with s ''0x'' \<or> starts_with s ''0X'' then
            (let ds = takeWhile is_hex_digit (drop 2 s)
             in if ds = [] then NaN else js_mul (Num sg) (round_to_double (digits_val 16 ds)))
          else
            (let ds = takeWhile is_digit s
             in if ds = [] then NaN else js_mul (Num sg) (round_to_double (digits_val 10 ds))))"

subsection \<open>The coercions \<^verbatim>\<open>parseInt(String(x).trim())\<close> and \<^verbatim>\<open>parseFloat(String(x).trim())\<close>\<close>

text \<open>
  \<^verbatim>\<open>String(x)\<close> for a value that is not a number. (A number never reaches it: the
  two coercions below treat numbers first.)
\<close>

definition String_nn :: "jsval \<Rightarrow> string" where
  "String_nn v =
     (case v of
        JUndefined \<Rightarrow> ''undefined''
      | JNull \<Rightarrow> ''null''
      | JBool b \<Rightarrow> (if b then ''true'' else ''false'')
      | JStr s \<Rightarrow> s
      | JNum x \<Rightarrow> [])"

text \<open>
  For a number \<open>x\<close>, \<^verbatim>\<open>String(x)\<close> is the text ECMAScript's \<open>Number::toString\<close>
  gives, and the two parsers are modelled on that text without building it:

  \<^item> \<open>parseFloat\<close> reads back the number that was printed
    (\<open>NaN\<close> prints as \<open>NaN\<close>, the infinities as \<open>Infinity\<close> and \<open>-Infinity\<close>, a
    finite number as a decimal that denotes it);

  \<^item> \<open>parseInt\<close> reads the digits in front of the first character that is not a
    digit. A number of magnitude in \<open>[10^-6, 10^21)\<close> prints in positional notation,
    so these digits are its integer part (an integer of \<open>2^53\<close> or more prints as the
    shortest digits that round to it, filled with zeros, and \<open>parseInt\<close> rounds them
    back to it). Any other non-zero finite number prints in
    exponent notation, one digit, then a point or \<open>e\<close>: these digits are its leading
    digit (\<^verbatim>\<open>String(1e21)\<close> is \<^verbatim>\<open>"1e+21"\<close>, which \<open>parseInt\<close> reads as 1).
    \<open>NaN\<close> and the infinities print without a leading digit.

  The leading digit is taken from the number itself. The code takes it from the shortest
  decimal that rounds to the double, which starts with another digit for a double next
  to a power of ten (the double nearest to \<open>10^23\<close> is below it and prints as
  \<^verbatim>\<open>"1e+23"\<close>); either way it is one of the digits 1 to 9. A result that is zero has
  the sign of the number in the code (\<^verbatim>\<open>parseInt("-0.5")\<close> is \<open>-0\<close>), and is the one
  zero here.
\<close>

definition leading_digit :: "real \<Rightarrow> real" where
  "leading_digit x = of_int \<lfloor>x / 10 powi \<lfloor>log 10 x\<rfloor>\<rfloor>"

definition parseInt_of_number :: "jsnum \<Rightarrow> jsnum" where
  "parseInt_of_number x =
     (case x of
        Num r \<Rightarrow>
          if r = 0 then Num 0
          else if 1 / 10 ^ 6 \<le> \<bar>r\<bar> \<and> \<bar>r\<bar> < 10 ^ 21 then Num (sgn r * of_int \<lfloor>\<bar>r\<bar>\<rfloor>)
          else Num (sgn r * leading_digit \<bar>r\<bar>)
      | _ \<Rightarrow> NaN)"

definition coerceInt :: "jsval \<Rightarrow> jsnum" where
  "coerceInt v =
     (case v of JNum x \<Rightarrow> parseInt_of_number x | _ \<Rightarrow> parseInt (trim (String_nn v)))"

definition coerceFloat :: "jsval \<Rightarrow> jsnum" where
  "coerceFloat v =
     (case v of JNum x \<Rightarrow> x | _ \<Rightarrow> parseFloat (trim (String_nn v)))"

section \<open>Library functions the cards call\<close>

text \<open>
  \<^verbatim>\<open>d3.max(values)\<close> is the greatest comparable value: the loop of d3-array is
  \<^verbatim>\<open>if (value != null && (max < value || (max === undefined && value >= value))) max = value;\<close>
  so \<open>NaN\<close> is skipped, and the result is \<open>undefined\<close> (\<open>None\<close>) when nothing is
  comparable. With an accessor, \<^verbatim>\<open>d3.max(data, f)\<close> is \<open>d3_max (map f data)\<close>.
\<close>

fun d3_max_loop :: "jsnum option \<Rightarrow> jsnum list \<Rightarrow> jsnum option" where
  "d3_max_loop mx [] = mx"
| "d3_max_loop mx (v # vs) =
     d3_max_loop
       (if (case mx of None \<Rightarrow> js_ge v v | Some m \<Rightarrow> js_lt m v) then Some v else mx) vs"

definition d3_max :: "jsnum list \<Rightarrow> jsnum option" where
  "d3_max vs = d3_max_loop None vs"

text \<open>
  \<^verbatim>\<open>d3.group(values, keyof)\<close> builds a \<open>Map\<close> from each key to the array of the
  values that have it: a value is pushed on its key's array, and a key that is new is
  added after the others. The \<open>Map\<close> is an association list in insertion order, which
  is the order \<open>forEach\<close> visits it in.
\<close>

fun group_push :: "'k \<Rightarrow> 'a \<Rightarrow> ('k \<times> 'a list) list \<Rightarrow> ('k \<times> 'a list) list" where
  "group_push k x [] = [(k, [x])]"
| "group_push k x ((k', g) # gs) =
     (if k' = k then (k', g @ [x]) # gs else (k', g) # group_push k x gs)"

definition d3_group :: "('a \<Rightarrow> 'k) \<Rightarrow> 'a list \<Rightarrow> ('k \<times> 'a list) list" where
  "d3_group keyof vs = foldl (\<lambda>groups v. group_push (keyof v) v groups) [] vs"

text \<open>\<^verbatim>\<open>dataByDay.get(day) || []\<close>: an array is truthy, so only a missing key gives \<open>[]\<close>.\<close>

definition get_or_empty :: "('k \<times> 'a list) list \<Rightarrow> 'k \<Rightarrow> 'a list" where
  "get_or_empty groups k = (case map_of groups k of None \<Rightarrow> [] | Some g \<Rightarrow> g)"

text \<open>
  \<^verbatim>\<open>map.get(key)\<close> on a \<open>Map\<close> whose stored values can be \<open>undefined\<close>: a missing
  key and a stored \<open>undefined\<close> both read as \<open>undefined\<close>.
\<close>

definition map_get :: "('k \<times> 'v option) list \<Rightarrow> 'k \<Rightarrow> 'v option" where
  "map_get m k = (case map_of m k of None \<Rightarrow> None | Some v \<Rightarrow> v)"

text \<open>
  \<^verbatim>\<open>d3.ascending(a, b)\<close> is
  \<^verbatim>\<open>a < b ? -1 : a > b ? 1 : a >= b ? 0 : NaN\<close>, and \<^verbatim>\<open>d3.least(values, f)\<close> with a
  one-argument accessor keeps the first element whose value is the least:
  \<^verbatim>\<open>if (defined ? ascending(value, minValue) < 0 : ascending(value, value) === 0)\<close>
  \<^verbatim>\<open>  { min = element; minValue = value; defined = true; }\<close>
\<close>

definition ascending :: "jsnum \<Rightarrow> jsnum \<Rightarrow> jsnum" where
  "ascending a b =
     (if js_lt a b then Num (- 1) else if js_gt a b then Num 1
      else if js_ge a b then Num 0 else NaN)"

fun d3_least_loop :: "('a \<Rightarrow> jsnum) \<Rightarrow> ('a \<times> jsnum) option \<Rightarrow> 'a list \<Rightarrow> ('a \<times> jsnum) option" where
  "d3_least_loop f mn [] = mn"
| "d3_least_loop f mn (e # es) =
     (let v = f e in
      d3_least_loop f
        (if (case mn of
               None \<Rightarrow> ascending v v = Num 0
             | Some (m, minValue) \<Rightarrow> js_lt (ascending v minValue) (Num 0))
         then Some (e, v) else mn) es)"

definition d3_least :: "'a list \<Rightarrow> ('a \<Rightarrow> jsnum) \<Rightarrow> 'a option" where
  "d3_least vs f = map_option fst (d3_least_loop f None vs)"

text \<open>
  \<^verbatim>\<open>Array.prototype.sort(comparefn)\<close> is stable, and for a consistent comparator it
  returns the elements in the comparator's order: a stable insertion sort computes that
  list. \<open>x\<close> stays in front of \<open>y\<close> unless \<^verbatim>\<open>comparefn(x, y) > 0\<close>. (For a comparator
  that is not consistent, for example one that returns \<open>NaN\<close>, ECMAScript leaves the
  order to the implementation; the theorems below that speak of sorted order assume
  numeric keys.)
\<close>

fun sort_insert :: "('a \<Rightarrow> 'a \<Rightarrow> jsnum) \<Rightarrow> 'a \<Rightarrow> 'a list \<Rightarrow> 'a list" where
  "sort_insert cmp x [] = [x]"
| "sort_insert cmp x (y # ys) =
     (if js_gt (cmp x y) (Num 0) then y # sort_insert cmp x ys else x # y # ys)"

definition js_sort :: "('a \<Rightarrow> 'a \<Rightarrow> jsnum) \<Rightarrow> 'a list \<Rightarrow> 'a list" where
  "js_sort cmp xs = foldr (sort_insert cmp) xs []"

text \<open>\<^verbatim>\<open>Array.prototype.indexOf\<close>: the first index of the element, or -1.\<close>

fun indexOf :: "'a list \<Rightarrow> 'a \<Rightarrow> int" where
  "indexOf [] x = - 1"
| "indexOf (y # ys) x =
     (if y = x then 0 else (let i = indexOf ys x in if i < 0 then - 1 else i + 1))"

text \<open>\<^verbatim>\<open>String.prototype.padStart(n, c)\<close> for a one-character pad.\<close>

definition padStart :: "string \<Rightarrow> nat \<Rightarrow> char \<Rightarrow> string" where
  "padStart s n c = replicate (n - length s) c @ s"

section \<open>Constants\<close>

definition DAY_ORDER :: "string list" where
  "DAY_ORDER = [''Mon'', ''Tue'', ''Wed'', ''Thu'', ''Fri'', ''Sat'', ''Sun'']"

definition DAY_FULL_NAMES :: "(string \<times> string) list" where
  "DAY_FULL_NAMES =
     [(''Mon'', ''Monday''), (''Tue'', ''Tuesday''), (''Wed'', ''Wednesday''),
      (''Thu'', ''Thursday''), (''Fri'', ''Friday''), (''Sat'', ''Saturday''),
      (''Sun'', ''Sunday'')]"

text \<open>Every record of the card artifacts that the cards group or sort carries a weekday label.\<close>

record labelled =
  Day_of_Week :: string

section \<open>\<open>formatTimeToMMSS\<close>\<close>

text \<open>
  \<^verbatim>\<open>timeStr.match(/(\d+)\s*m\s*(\d+)\s*s/)\<close> finds the leftmost match and returns its
  two groups. \<open>match_here\<close> matches the pattern at the start of a string. Each
  quantifier is greedy, and the character that has to follow it is outside its class
  (white space or \<open>m\<close> after the minutes, \<open>m\<close> after white space, and so on), so a
  shorter run can never lead to a match and backtracking has nothing to try: the groups
  are the whole runs of digits. \<open>regex_match\<close> tries the start positions from the left.
\<close>

definition match_here :: "string \<Rightarrow> (string \<times> string) option" where
  "match_here s =
     (let d1 = takeWhile is_digit s; r1 = dropWhile is_space (dropWhile is_digit s) in
      if d1 = [] then None
      else
        (case r1 of
           [] \<Rightarrow> None
         | c # r2 \<Rightarrow>
             if c \<noteq> CHR ''m'' then None
             else
               (let r3 = dropWhile is_space r2;
                    d2 = takeWhile is_digit r3;
                    r4 = dropWhile is_space (dropWhile is_digit r3) in
                if d2 = [] then None
                else
                  (case r4 of
                     [] \<Rightarrow> None
                   | c' # r5 \<Rightarrow> if c' = CHR ''s'' then Some (d1, d2) else None))))"

fun regex_match :: "string \<Rightarrow> (string \<times> string) option" where
  "regex_match [] = None"
| "regex_match (c # cs) =
     (case match_here (c # cs) of Some parts \<Rightarrow> Some parts | None \<Rightarrow> regex_match cs)"

text \<open>
  \<^verbatim>\<open>function formatTimeToMMSS(timeStr) {\<close>
  \<^verbatim>\<open>    if (!timeStr) return "00:00";\<close>
  \<^verbatim>\<open>    const parts = timeStr.match(/(\d+)\s*m\s*(\d+)\s*s/);\<close>
  \<^verbatim>\<open>    if (parts) {\<close>
  \<^verbatim>\<open>        let minutes = parts[1];\<close>
  \<^verbatim>\<open>        const seconds = parts[2].padStart(2, '0');\<close>
  \<^verbatim>\<open>        if (minutes.length > 1 && minutes.startsWith('0')) { minutes = minutes.substring(1); }\<close>
  \<^verbatim>\<open>        return `${minutes}:${seconds}`;\<close>
  \<^verbatim>\<open>    }\<close>
  \<^verbatim>\<open>    return timeStr;\<close>
  \<^verbatim>\<open>}\<close>

  A truthy argument that is not a string (a non-zero number, \<open>true\<close>) has no \<open>match\<close>
  method: the call throws a TypeError.
\<close>

datatype js_error = TypeError

definition formatTimeToMMSS :: "jsval \<Rightarrow> js_error + string" where
  "formatTimeToMMSS timeStr =
     (if \<not> js_truthy timeStr then Inr ''00:00''
      else
        (case timeStr of
           JStr s \<Rightarrow>
             (case regex_match s of
                Some (minutes, secs) \<Rightarrow>
                  (let seconds = padStart secs 2 (CHR ''0'');
                       minutes' = (if length minutes > 1 \<and> starts_with minutes ''0''
                                   then drop 1 minutes else minutes)
                   in Inr (minutes' @ '':'' @ seconds))
              | None \<Rightarrow> Inr s)
         | _ \<Rightarrow> Inl TypeError))"

text \<open>
  The pattern itself, for the statements about \<open>formatTimeToMMSS\<close>: a string
  \<open>has_time_at\<close> groups \<open>m\<close> and \<open>sec\<close> when it starts with a match of the
  regular expression whose groups they are, and \<open>has_time\<close> when some suffix does.
\<close>

definition has_time_at :: "string \<Rightarrow> string \<Rightarrow> string \<Rightarrow> bool" where
  "has_time_at s m sec =
     (\<exists>w1 w2 w3 rest.
        s = m @ w1 @ ''m'' @ w2 @ sec @ w3 @ ''s'' @ rest \<and>
        m \<noteq> [] \<and> sec \<noteq> [] \<and>
        (\<forall>c \<in> set m. is_digit c) \<and> (\<forall>c \<in> set sec. is_digit c) \<and>
        (\<forall>c \<in> set w1. is_space c) \<and> (\<forall>c \<in> set w2. is_space c) \<and>
        (\<forall>c \<in> set w3. is_space c))"

definition has_time :: "string \<Rightarrow> bool" where
  "has_time s = (\<exists>pre post m sec. s = pre @ post \<and> has_time_at post m sec)"

text \<open>
  The groups of the leftmost occurrence: \<open>post\<close> starts with a match, and no suffix
  that starts further left does.
\<close>

definition leftmost_time :: "string \<Rightarrow> string \<Rightarrow> string \<Rightarrow> bool" where
  "leftmost_time s m sec =
     (\<exists>pre post.
        s = pre @ post \<and> has_time_at post m sec \<and>
        (\<forall>pre' post' m' sec'.
           s = pre' @ post' \<and> length pre' < length pre \<longrightarrow> \<not> has_time_at post' m' sec'))"

section \<open>Card 1: \<open>animateArc\<close>\<close>

text \<open>
  \<^verbatim>\<open>const finalRateTotal = (data.total_completed / data.total_available) * 100;\<close>
  \<^verbatim>\<open>const finalRateGold = (data.gold_star_completed / data.total_available) * 100;\<close>

  The two rates are what the arcs are drawn from; the three fields are the numbers of
  the summary artifact.
\<close>

record summary =
  total_completed :: jsnum
  gold_star_completed :: jsnum
  total_available :: jsnum

definition finalRateTotal :: "summary \<Rightarrow> jsnum" where
  "finalRateTotal data = js_mul (js_div (total_completed data) (total_available data)) (Num 100)"

definition finalRateGold :: "summary \<Rightarrow> jsnum" where
  "finalRateGold data =
     js_mul (js_div (gold_star_completed data) (total_available data)) (Num 100)"

section \<open>Card 2: the weekday sort of \<open>renderCard2\<close>\<close>

text \<open>
  \<^verbatim>\<open>const dayOrder = ["Mon", "Tue", "Wed", "Thu", "Fri", "Sat", "Sun"];\<close>
  \<^verbatim>\<open>chartData.sort((a, b) => dayOrder.indexOf(a.Day_of_Week) - dayOrder.indexOf(b.Day_of_Week));\<close>
\<close>

record weekday_stats = labelled +
  average_in_minutes :: jsnum
  slowest_in_minutes :: jsnum

definition by_day_order :: "'a labelled_scheme \<Rightarrow> 'a labelled_scheme \<Rightarrow> jsnum" where
  "by_day_order a b =
     (let dayOrder = [''Mon'', ''Tue'', ''Wed'', ''Thu'', ''Fri'', ''Sat'', ''Sun'']
      in Num (of_int (indexOf dayOrder (Day_of_Week a) - indexOf dayOrder (Day_of_Week b))))"

definition renderCard2_sort :: "weekday_stats list \<Rightarrow> weekday_stats list" where
  "renderCard2_sort chartData = js_sort by_day_order chartData"

text \<open>For the statements about card 2: the position of a record's label in the weekday order.\<close>

definition day_index :: "'a labelled_scheme \<Rightarrow> int" where
  "day_index e = indexOf DAY_ORDER (Day_of_Week e)"

section \<open>Card 3: the histograms of \<open>renderCard3\<close> and \<open>renderDayHistogram\<close>\<close>

text \<open>
  A bin of the histograms artifact; its frequency is a raw JSON value before the
  coercion \<^verbatim>\<open>d.frequency = parseFloat(String(d.frequency).trim())\<close> and a number
  after it.
\<close>

record 'v hist_bin = labelled +
  bin_index :: int
  frequency :: 'v

text \<open>
  What \<open>renderDayHistogram(containerId, chartData, maxFrequency)\<close> draws, as far as
  the scales go: the y scale
  \<^verbatim>\<open>d3.scaleLinear().domain([0, maxFrequency * 1.1])\<close>,
  the weekday's own peak \<^verbatim>\<open>maxVal = d3.max(chartData, d => d.frequency)\<close> (used only
  to highlight the tallest bar), and one bar per bin.
\<close>

record histogram =
  containerId :: string
  y_domain :: "jsnum \<times> jsnum"
  maxVal :: "jsnum option"
  bars :: "(int \<times> jsnum) list"

definition renderDayHistogram ::
  "string \<Rightarrow> jsnum hist_bin list \<Rightarrow> jsnum option \<Rightarrow> histogram" where
  "renderDayHistogram cid chartData maxFrequency =
     \<lparr>containerId = cid,
      y_domain = (Num 0, js_mul (to_number maxFrequency) (Num (11 / 10))),
      maxVal = d3_max (map frequency chartData),
      bars = map (\<lambda>d. (bin_index d, frequency d)) chartData\<rparr>"

text \<open>
  \<^verbatim>\<open>const dataByDay = d3.group(rawData, d => d.Day_of_Week);\<close>
  \<^verbatim>\<open>const allFrequencies = rawData.map(d => d.frequency);\<close>
  \<^verbatim>\<open>const maxFrequency = d3.max(allFrequencies);\<close>
  \<^verbatim>\<open>dayOrder.forEach((day, i) => {\<close>
  \<^verbatim>\<open>    const dayData = dataByDay.get(day);\<close>
  \<^verbatim>\<open>    if (dayData && dayData.length > 0) { ...\<close>
  \<^verbatim>\<open>        renderDayHistogram(`histogram-${day}`, dayData, maxFrequency); ... } });\<close>

  The result is the list of the histograms drawn, in the order of \<open>dayOrder\<close>.
\<close>

definition renderCard3 :: "jsval hist_bin list \<Rightarrow> histogram list" where
  "renderCard3 fetched =
     (let rawData = map (\<lambda>d. \<lparr>Day_of_Week = Day_of_Week d, bin_index = bin_index d,
                                frequency = coerceFloat (frequency d)\<rparr>) fetched;
          dayOrder = [''Mon'', ''Tue'', ''Wed'', ''Thu'', ''Fri'', ''Sat'', ''Sun''];
          dataByDay = d3_group Day_of_Week rawData;
          allFrequencies = map frequency rawData;
          maxFrequency = d3_max allFrequencies
      in concat (map (\<lambda>day.
           case map_of dataByDay day of
             None \<Rightarrow> []
           | Some dayData \<Rightarrow>
               if length dayData > 0
               then [renderDayHistogram (''histogram-'' @ day) dayData maxFrequency]
               else []) dayOrder))"

text \<open>
  For the statements about card 3: the bins after the coercion loop, and the greatest
  frequency of the whole artifact.
\<close>

definition coerced_bins :: "jsval hist_bin list \<Rightarrow> jsnum hist_bin list" where
  "coerced_bins fetched =
     map (\<lambda>d. \<lparr>Day_of_Week = Day_of_Week d, bin_index = bin_index d,
                frequency = coerceFloat (frequency d)\<rparr>) fetched"

definition max_frequency :: "jsval hist_bin list \<Rightarrow> real" where
  "max_frequency fetched = Max {f. \<exists>d \<in> set fetched. coerceFloat (frequency d) = Num f}"

section \<open>Card 4: coercion, normalization and the biggest improver of \<open>renderCard4\<close>\<close>

text \<open>
  A point of the evolution artifact. Its two numeric fields are raw JSON values
  (\<open>jsval trend\<close>) as fetched and numbers (\<open>jsnum trend\<close>) after the coercion loop;
  the normalization loop adds \<open>normalized_time\<close>.
\<close>

record 'v trend = labelled +
  day_of_year :: 'v
  average_time_min :: 'v

record ntrend = "jsnum trend" +
  normalized_time :: jsnum


text \<open>
  \<^verbatim>\<open>const dataByDay = d3.group(chartData, d => d.Day_of_Week);\<close>
  \<^verbatim>\<open>const maxTimeByDay = new Map();\<close>
  \<^verbatim>\<open>DAY_ORDER.forEach(day => {\<close>
  \<^verbatim>\<open>    const dayData = dataByDay.get(day) || [];\<close>
  \<^verbatim>\<open>    maxTimeByDay.set(day, d3.max(dayData, d => d.average_time_min)); });\<close>
  \<^verbatim>\<open>chartData.forEach(d => {\<close>
  \<^verbatim>\<open>    const maxTime = maxTimeByDay.get(d.Day_of_Week);\<close>
  \<^verbatim>\<open>    d.normalized_time = (d.average_time_min / maxTime) * 100; });\<close>
\<close>

definition maxTimeByDay :: "jsnum trend list \<Rightarrow> (string \<times> jsnum option) list" where
  "maxTimeByDay chartData =
     (let dataByDay = d3_group Day_of_Week chartData
      in map (\<lambda>day. (day, d3_max (map average_time_min (get_or_empty dataByDay day))))
           DAY_ORDER)"

definition normalization :: "jsnum trend list \<Rightarrow> ntrend list" where
  "normalization chartData =
     (let m = maxTimeByDay chartData
      in map (\<lambda>d. \<lparr>Day_of_Week = Day_of_Week d,
                    day_of_year = day_of_year d,
                    average_time_min = average_time_min d,
                    normalized_time =
                      js_mul (js_div (average_time_min d) (to_number (map_get m (Day_of_Week d))))
                        (Num 100)\<rparr>) chartData)"




text \<open>
  \<^verbatim>\<open>let biggestImprover = { day: null, improvement: -Infinity };\<close>
  \<^verbatim>\<open>normalizedDataByDay.forEach((data, day) => {\<close>
  \<^verbatim>\<open>    if (data.length > 1) {\<close>
  \<^verbatim>\<open>        const sorted = [...data].sort((a, b) => a.day_of_year - b.day_of_year);\<close>
  \<^verbatim>\<open>        const startVal = sorted[0].normalized_time;\<close>
  \<^verbatim>\<open>        const endVal = sorted[sorted.length - 1].normalized_time;\<close>
  \<^verbatim>\<open>        const improvement = startVal - endVal;\<close>
  \<^verbatim>\<open>        if (improvement > biggestImprover.improvement) {\<close>
  \<^verbatim>\<open>            biggestImprover = { day, improvement, dayName: DAY_FULL_NAMES[day] }; } } });\<close>
\<close>

record improver =
  day :: "string option"
  improvement :: jsnum
  dayName :: "string option"

definition by_day_of_year :: "ntrend \<Rightarrow> ntrend \<Rightarrow> jsnum" where
  "by_day_of_year a b = js_sub (day_of_year a) (day_of_year b)"

definition improver_step :: "improver \<Rightarrow> string \<times> ntrend list \<Rightarrow> improver" where
  "improver_step biggestImprover entry =
     (case entry of
        (d, data) \<Rightarrow>
          if length data > 1 then
            (let sorted = js_sort by_day_of_year data;
                 startVal = normalized_time (sorted ! 0);
                 endVal = normalized_time (sorted ! (length sorted - 1));
                 imp = js_sub startVal endVal
             in if js_gt imp (improvement biggestImprover)
                then \<lparr>day = Some d, improvement = imp, dayName = map_of DAY_FULL_NAMES d\<rparr>
                else biggestImprover)
          else biggestImprover)"

definition biggestImprover :: "ntrend list \<Rightarrow> improver" where
  "biggestImprover chartData =
     foldl improver_step \<lparr>day = None, improvement = NegInf, dayName = None\<rparr>
       (d3_group Day_of_Week chartData)"

text \<open>
  For the statements about card 4: the greatest average of a weekday's points, the
  points of a weekday, and the improvement of a weekday as the comment in the source
  describes it (the first normalized value of the year minus the last).
\<close>

definition weekday_max :: "jsnum trend list \<Rightarrow> string \<Rightarrow> real" where
  "weekday_max chartData d =
     Max {v. \<exists>e \<in> set chartData. Day_of_Week e = d \<and> average_time_min e = Num v}"

definition points_of :: "ntrend list \<Rightarrow> string \<Rightarrow> ntrend list" where
  "points_of chartData d = filter (\<lambda>e. Day_of_Week e = d) chartData"

definition group_improvement :: "ntrend list \<Rightarrow> jsnum" where
  "group_improvement data =
     (let sorted = js_sort by_day_of_year data
      in js_sub (normalized_time (hd sorted)) (normalized_time (last sorted)))"

definition weekday_improvement :: "ntrend list \<Rightarrow> string \<Rightarrow> jsnum" where
  "weekday_improvement chartData d = group_improvement (points_of chartData d)"

section \<open>Cards 6 and 7: the fastest puzzle\<close>

text \<open>
  A record of the fast-days artifact. The deviation label is a string such as
  \<^verbatim>\<open>"-45.2%"\<close>, or absent (\<open>null\<close> or \<open>undefined\<close>).
\<close>

record fast_day = labelled +
  Date :: string
  Author :: string
  Time_formatted :: jsval
  Deviation_Percent_Label :: "string option"
  puzzle_id :: jsval

text \<open>
  \<^verbatim>\<open>function _parseDeviation(label) {\<close>
  \<^verbatim>\<open>    if (label == null) return Infinity;\<close>
  \<^verbatim>\<open>    const num = parseFloat(String(label).replace(/[^0-9.-]+/g, ''));\<close>
  \<^verbatim>\<open>    return Number.isFinite(num) ? num : Infinity; }\<close>

  The replacement deletes every character that is not a digit, a point or a minus
  sign. (The constant is \<open>parseDeviation\<close> here, and \<open>_fastestPuzzle\<close> below is
  \<open>fastestPuzzle\<close>: a name cannot start with an underscore.)
\<close>

definition parseDeviation :: "string option \<Rightarrow> jsnum" where
  "parseDeviation label =
     (case label of
        None \<Rightarrow> PosInf
      | Some l \<Rightarrow>
          (let num = parseFloat (filter (\<lambda>c. is_digit c \<or> c = CHR ''.'' \<or> c = CHR ''-'') l)
           in if isFinite num then num else PosInf))"

text \<open>
  \<^verbatim>\<open>const _fastestPuzzle = (typeof d3.least === 'function')\<close>
  \<^verbatim>\<open>    ? d3.least(tableData, d => _parseDeviation(d.Deviation_Percent_Label))\<close>
  \<^verbatim>\<open>    : tableData.reduce((best, d) => {\<close>
  \<^verbatim>\<open>        if (!best) return d;\<close>
  \<^verbatim>\<open>        return _parseDeviation(d.Deviation_Percent_Label)\<close>
  \<^verbatim>\<open>             < _parseDeviation(best.Deviation_Percent_Label) ? d : best; }, null);\<close>

  \<open>renderCard6\<close> and \<open>renderCard7\<close> hold the same text. Which branch runs depends on
  the d3 that the page loaded: the parameter \<open>has_d3_least\<close>.
\<close>

definition reduce_fastest :: "fast_day list \<Rightarrow> fast_day option" where
  "reduce_fastest tableData =
     foldl (\<lambda>best d.
        case best of
          None \<Rightarrow> Some d
        | Some b \<Rightarrow>
            if js_lt (parseDeviation (Deviation_Percent_Label d))
                     (parseDeviation (Deviation_Percent_Label b))
            then Some d else Some b) None tableData"

definition fastestPuzzle :: "bool \<Rightarrow> fast_day list \<Rightarrow> fast_day option" where
  "fastestPuzzle has_d3_least tableData =
     (if has_d3_least
      then d3_least tableData (\<lambda>d. parseDeviation (Deviation_Percent_Label d))
      else reduce_fastest tableData)"

text \<open>
  \<open>renderCard7\<close> up to the fetch of the replay data:

  \<^verbatim>\<open>if (tableData.length === 0) { console.warn(...); return; }\<close>
  \<^verbatim>\<open>const _fastestPuzzle = ...;\<close>
  \<^verbatim>\<open>if (!_fastestPuzzle || !_fastestPuzzle.puzzle_id) { console.warn(...); return; }\<close>
  \<^verbatim>\<open>const puzzleId = _fastestPuzzle.puzzle_id;\<close>
  \<^verbatim>\<open>const response = await fetch(`../puzzle_completion_data/${puzzleId}.json`);\<close>
\<close>

datatype replay = Empty_dataset | No_puzzle_id | Fetch_completion jsval

definition renderCard7 :: "bool \<Rightarrow> fast_day list \<Rightarrow> replay" where
  "renderCard7 has_d3_least tableData =
     (if length tableData = 0 then Empty_dataset
      else
        (case fastestPuzzle has_d3_least tableData of
           None \<Rightarrow> No_puzzle_id
         | Some p \<Rightarrow>
             if \<not> js_truthy (puzzle_id p) then No_puzzle_id
             else Fetch_completion (puzzle_id p)))"

text \<open>A label is parseable when the filtered text reads as a finite number.\<close>

definition parseable :: "string option \<Rightarrow> bool" where
  "parseable label =
     (case label of
        None \<Rightarrow> False
      | Some l \<Rightarrow>
          isFinite (parseFloat (filter (\<lambda>c. is_digit c \<or> c = CHR ''.'' \<or> c = CHR ''-'') l)))"

text \<open>
  The callback of the \<open>reduce\<close> branch, with the accessor as a parameter: keep the
  best so far unless the next element is strictly less.
\<close>

definition keep_less :: "('a \<Rightarrow> jsnum) \<Rightarrow> 'a option \<Rightarrow> 'a \<Rightarrow> 'a option" where
  "keep_less f best d =
     (case best of
        None \<Rightarrow> Some d
      | Some b \<Rightarrow> if js_lt (f d) (f b) then Some d else Some b)"

section \<open>Slide navigation\<close>

text \<open>
  \<^verbatim>\<open>let currentCardIndex = 0; const totalCards = 9;\<close>

  The index is a JavaScript number that only ever holds small integers, so it is an
  \<open>int\<close>. JavaScript's \<open>%\<close> takes the sign of the dividend; on integers that is
  \<open>smod\<close>.

  Both \<open>nextCard\<close> and \<open>prevCard\<close> start with
  \<^verbatim>\<open>document.getElementById(`card-${currentCardIndex}`).classList\<close>, which throws a
  TypeError when the document has no such element; the assignment to the index comes
  after it, so a call that throws leaves the index as it was. The document is the
  parameter \<open>doc\<close>: \<open>doc i\<close> says that an element with id \<open>card-i\<close> exists.
  \<open>updateCards\<close> runs after the assignment and never writes the index.
\<close>

definition totalCards :: int where
  "totalCards = 9"

definition nextCard :: "(int \<Rightarrow> bool) \<Rightarrow> int \<Rightarrow> js_error + int" where
  "nextCard doc currentCardIndex =
     (if \<not> doc currentCardIndex then Inl TypeError
      else Inr ((currentCardIndex + 1) smod totalCards))"

definition prevCard :: "(int \<Rightarrow> bool) \<Rightarrow> int \<Rightarrow> js_error + int" where
  "prevCard doc currentCardIndex =
     (if \<not> doc currentCardIndex then Inl TypeError
      else Inr ((currentCardIndex - 1 + totalCards) smod totalCards))"

datatype nav = Next | Prev

text \<open>The index after one call from the key handler, and after a sequence of calls.\<close>

fun after_call :: "(int \<Rightarrow> bool) \<Rightarrow> nav \<Rightarrow> int \<Rightarrow> int" where
  "after_call doc Next i = (case nextCard doc i of Inl _ \<Rightarrow> i | Inr j \<Rightarrow> j)"
| "after_call doc Prev i = (case prevCard doc i of Inl _ \<Rightarrow> i | Inr j \<Rightarrow> j)"

fun after_calls :: "(int \<Rightarrow> bool) \<Rightarrow> nav list \<Rightarrow> int \<Rightarrow> int" where
  "after_calls doc [] i = i"
| "after_calls doc (c # cs) i = after_calls doc cs (after_call doc c i)"

definition in_range :: "int \<Rightarrow> bool" where
  "in_range i = (0 \<le> i \<and> i < totalCards)"

chapter \<open>Properties\<close>

section \<open>Facts about the library functions\<close>

lemma group_push_map_of:
  "map_of (group_push k x gs) k' =
     (if k' = k then Some ((case map_of gs k of None \<Rightarrow> [] | Some g \<Rightarrow> g) @ [x])
      else map_of gs k')"
  by (induction gs) auto

lemma foldl_group_push_map_of:
  "map_of (foldl (\<lambda>groups v. group_push (f v) v groups) gs xs) k =
     (case map_of gs k of
        None \<Rightarrow> (if k \<in> f ` set xs then Some (filter (\<lambda>x. f x = k) xs) else None)
      | Some g \<Rightarrow> Some (g @ filter (\<lambda>x. f x = k) xs))"
proof (induction xs arbitrary: gs)
  case Nil
  then show ?case by (simp split: option.splits)
next
  case (Cons x xs)
  show ?case
    by (simp add: Cons.IH group_push_map_of split: option.splits)
qed

lemma map_of_d3_group:
  "map_of (d3_group f xs) k =
     (if k \<in> f ` set xs then Some (filter (\<lambda>x. f x = k) xs) else None)"
  by (simp add: d3_group_def foldl_group_push_map_of)

lemma get_or_empty_d3_group:
  "get_or_empty (d3_group f xs) k = filter (\<lambda>x. f x = k) xs"
proof (cases "k \<in> f ` set xs")
  case True
  then show ?thesis by (simp add: get_or_empty_def map_of_d3_group)
next
  case False
  then have "filter (\<lambda>x. f x = k) xs = []" by (auto simp: filter_empty_conv)
  with False show ?thesis by (simp add: get_or_empty_def map_of_d3_group)
qed

lemma map_of_tabulate:
  "map_of (map (\<lambda>k. (k, g k)) ks) k = (if k \<in> set ks then Some (g k) else None)"
  by (induction ks) auto

lemma d3_max_loop_Num:
  "d3_max_loop (Some (Num m)) (map Num vs) = Some (Num (Max (insert m (set vs))))"
proof (induction vs arbitrary: m)
  case Nil
  then show ?case by simp
next
  case (Cons v vs)
  have ins: "Max (insert m (insert v (set vs))) = max m (Max (insert v (set vs)))"
    by (rule Max_insert) simp_all
  have ins': "Max (insert v (insert m (set vs))) = max v (Max (insert m (set vs)))"
    by (rule Max_insert) simp_all
  show ?case
  proof (cases "m < v")
    case True
    have "v \<le> Max (insert v (set vs))" by (rule Max_ge) simp_all
    with True have "max m (Max (insert v (set vs))) = Max (insert v (set vs))" by linarith
    with True ins show ?thesis by (simp add: Cons.IH)
  next
    case False
    have "m \<le> Max (insert m (set vs))" by (rule Max_ge) simp_all
    with False have "max v (Max (insert m (set vs))) = Max (insert m (set vs))" by linarith
    with False ins' show ?thesis by (simp add: Cons.IH insert_commute)
  qed
qed

lemma d3_max_Num:
  "vs \<noteq> [] \<Longrightarrow> d3_max (map Num vs) = Some (Num (Max (set vs)))"
  by (cases vs) (simp_all add: d3_max_def js_ge_def d3_max_loop_Num)

lemma js_lt_trans: "js_lt a b \<Longrightarrow> js_lt b c \<Longrightarrow> js_lt a c"
  by (cases a; cases b; cases c) auto

lemma js_lt_not_NaN: "js_lt a b \<Longrightarrow> a \<noteq> NaN \<and> b \<noteq> NaN"
  by (cases a; cases b) auto

lemma js_not_lt_trans:
  "b \<noteq> NaN \<Longrightarrow> \<not> js_lt r b \<Longrightarrow> \<not> js_lt b x \<Longrightarrow> \<not> js_lt r x"
  by (cases r; cases b; cases x) auto

lemma js_not_lt_iff_le: "a \<noteq> NaN \<Longrightarrow> b \<noteq> NaN \<Longrightarrow> (\<not> js_lt a b) = js_le b a"
  by (cases a; cases b) auto

lemma group_push_keys:
  "map fst (group_push k x gs) =
     (if k \<in> fst ` set gs then map fst gs else map fst gs @ [k])"
proof (induction gs)
  case Nil
  then show ?case by simp
next
  case (Cons p gs)
  obtain k' g where p: "p = (k', g)" by (cases p)
  show ?case
  proof (cases "k' = k")
    case True
    with p show ?thesis by simp
  next
    case False
    with p Cons.IH show ?thesis by simp
  qed
qed

lemma group_push_distinct:
  "distinct (map fst gs) \<Longrightarrow> distinct (map fst (group_push k x gs))"
  by (simp add: group_push_keys)

lemma foldl_group_push_distinct:
  "distinct (map fst gs) \<Longrightarrow>
   distinct (map fst (foldl (\<lambda>groups v. group_push (f v) v groups) gs xs))"
  by (induction xs arbitrary: gs) (simp_all add: group_push_distinct)

lemma d3_group_distinct: "distinct (map fst (d3_group f xs))"
  by (simp add: d3_group_def foldl_group_push_distinct)

lemma in_d3_group_iff:
  "(k, g) \<in> set (d3_group f xs) \<longleftrightarrow> k \<in> f ` set xs \<and> g = filter (\<lambda>x. f x = k) xs"
proof -
  have "(k, g) \<in> set (d3_group f xs) \<longleftrightarrow> map_of (d3_group f xs) k = Some g"
    by (simp add: d3_group_distinct)
  then show ?thesis by (auto simp: map_of_d3_group)
qed

lemma sort_insert_eq_insort:
  fixes f :: "'a \<Rightarrow> 'b::linorder"
  assumes "\<forall>y \<in> set ys. js_gt (cmp x y) (Num 0) = (\<not> f x \<le> f y)"
  shows "sort_insert cmp x ys = insort_key f x ys"
  using assms by (induction ys) auto

lemma js_sort_eq_sort_key:
  fixes f :: "'a \<Rightarrow> 'b::linorder"
  assumes "\<forall>x \<in> set xs. \<forall>y \<in> set xs. js_gt (cmp x y) (Num 0) = (\<not> f x \<le> f y)"
  shows "js_sort cmp xs = sort_key f xs"
  using assms
proof (induction xs)
  case Nil
  then show ?case by (simp add: js_sort_def)
next
  case (Cons x xs)
  then have IH: "js_sort cmp xs = sort_key f xs" by simp
  have "sort_insert cmp x (sort_key f xs) = insort_key f x (sort_key f xs)"
    using Cons.prems by (intro sort_insert_eq_insort) simp
  with IH show ?case by (simp add: js_sort_def)
qed

lemma length_sort_insert: "length (sort_insert cmp x ys) = Suc (length ys)"
  by (induction ys) auto

lemma length_js_sort: "length (js_sort cmp xs) = length xs"
  by (induction xs) (simp_all add: js_sort_def length_sort_insert)

section \<open>Card 4: normalization\<close>

lemma map_get_maxTimeByDay:
  "d \<in> set DAY_ORDER \<Longrightarrow>
   map_get (maxTimeByDay chartData) d =
     d3_max (map average_time_min (filter (\<lambda>e. Day_of_Week e = d) chartData))"
  by (simp add: map_get_def maxTimeByDay_def map_of_tabulate get_or_empty_d3_group)

lemma normalization_nth:
  "i < length chartData \<Longrightarrow>
   normalization chartData ! i =
     \<lparr>Day_of_Week = Day_of_Week (chartData ! i),
      day_of_year = day_of_year (chartData ! i),
      average_time_min = average_time_min (chartData ! i),
      normalized_time =
        js_mul (js_div (average_time_min (chartData ! i))
                  (to_number (map_get (maxTimeByDay chartData) (Day_of_Week (chartData ! i)))))
          (Num 100)\<rparr>"
  by (simp add: normalization_def Let_def)

lemma weekday_group_values:
  assumes "\<forall>e \<in> set chartData. Day_of_Week e = d \<longrightarrow> (\<exists>v. average_time_min e = Num v \<and> 0 < v)"
  obtains vs where
    "map average_time_min (filter (\<lambda>e. Day_of_Week e = d) chartData) = map Num vs"
    "set vs = {v. \<exists>e \<in> set chartData. Day_of_Week e = d \<and> average_time_min e = Num v}"
    "\<forall>v \<in> set vs. 0 < v"
proof -
  define val where "val = (\<lambda>x. case x of Num v \<Rightarrow> v | _ \<Rightarrow> (0::real))"
  define grp where "grp = filter (\<lambda>e. Day_of_Week e = d) chartData"
  define vs where "vs = map (val \<circ> average_time_min) grp"
  have num: "Num (val (average_time_min e)) = average_time_min e" if "e \<in> set grp" for e
    using that assms by (auto simp: grp_def val_def)
  have pos: "0 < val (average_time_min e)" if "e \<in> set grp" for e
    using that assms by (auto simp: grp_def val_def)
  have 1: "map average_time_min grp = map Num vs"
    by (simp add: vs_def num)
  have 2: "set vs = {v. \<exists>e \<in> set chartData. Day_of_Week e = d \<and> average_time_min e = Num v}"
  proof (intro set_eqI iffI)
    fix v assume "v \<in> set vs"
    then obtain e where e: "e \<in> set grp" "v = val (average_time_min e)"
      by (auto simp: vs_def)
    with num [of e] have "average_time_min e = Num v" by simp
    with e(1) show "v \<in> {v. \<exists>e \<in> set chartData. Day_of_Week e = d \<and> average_time_min e = Num v}"
      by (auto simp: grp_def)
  next
    fix v assume "v \<in> {v. \<exists>e \<in> set chartData. Day_of_Week e = d \<and> average_time_min e = Num v}"
    then obtain e where e: "e \<in> set grp" "average_time_min e = Num v"
      by (auto simp: grp_def)
    then have "val (average_time_min e) = v" by (simp add: val_def)
    with e(1) show "v \<in> set vs" by (force simp: vs_def)
  qed
  have 3: "\<forall>v \<in> set vs. 0 < v" by (auto simp: vs_def pos)
  from 1 2 3 show thesis using that by (simp add: grp_def)
qed

text \<open>
  C1. Take any record of the dataset whose label is one of the weekdays of \<open>DAY_ORDER\<close>,
  and let every record of that weekday have a positive average. Then the normalization
  pass gives the record \<open>normalized_time = (average_time_min / weekday maximum) * 100\<close>,
  where the maximum is taken over the records that share its \<open>Day_of_Week\<close>; the
  value lies between 0 and 100, and it is exactly 100 when the record's average is the
  weekday's maximum.
\<close>

theorem normalization_percent_of_weekday_max:
  assumes "i < length chartData"
    and "Day_of_Week (chartData ! i) \<in> set DAY_ORDER"
    and "\<forall>e \<in> set chartData. Day_of_Week e = Day_of_Week (chartData ! i) \<longrightarrow>
           (\<exists>v. average_time_min e = Num v \<and> 0 < v)"
  shows "\<exists>v. average_time_min (chartData ! i) = Num v \<and>
           normalized_time (normalization chartData ! i) =
             Num (v / weekday_max chartData (Day_of_Week (chartData ! i)) * 100) \<and>
           0 \<le> v / weekday_max chartData (Day_of_Week (chartData ! i)) * 100 \<and>
           v / weekday_max chartData (Day_of_Week (chartData ! i)) * 100 \<le> 100 \<and>
           (v = weekday_max chartData (Day_of_Week (chartData ! i)) \<longrightarrow>
              normalized_time (normalization chartData ! i) = Num 100)"
proof -
  define d where "d = Day_of_Week (chartData ! i)"
  from assms(3) obtain vs where vs:
    "map average_time_min (filter (\<lambda>e. Day_of_Week e = d) chartData) = map Num vs"
    "set vs = {v. \<exists>e \<in> set chartData. Day_of_Week e = d \<and> average_time_min e = Num v}"
    "\<forall>v \<in> set vs. 0 < v"
    unfolding d_def [symmetric] by (rule weekday_group_values)
  from assms(1) have mem: "chartData ! i \<in> set chartData" by simp
  with assms(3) obtain v where v: "average_time_min (chartData ! i) = Num v" "0 < v"
    by blast
  from mem v(1) have vin: "v \<in> set vs" by (auto simp: vs(2) d_def)
  then have ne: "vs \<noteq> []" by auto
  define M where "M = Max (set vs)"
  have M_eq: "M = weekday_max chartData d"
    by (simp add: M_def weekday_max_def vs(2))
  from ne have "M \<in> set vs" unfolding M_def by (intro Max_in) simp_all
  with vs(3) have Mpos: "0 < M" by blast
  from vin have vM: "v \<le> M" unfolding M_def by (intro Max_ge) simp_all
  have "map_get (maxTimeByDay chartData) d = Some (Num M)"
    using assms(2) ne by (simp add: d_def [symmetric] map_get_maxTimeByDay vs(1) d3_max_Num M_def)
  then have nt: "normalized_time (normalization chartData ! i) = Num (v / M * 100)"
    using assms(1) v(1) Mpos by (simp add: normalization_nth d_def [symmetric] to_number_def)
  from v(2) Mpos vM have b: "0 \<le> v / M * 100" "v / M * 100 \<le> 100"
    by (simp_all add: field_simps)
  from Mpos have "M / M * 100 = 100" by simp
  with v(1) nt b show ?thesis
    unfolding M_eq d_def by auto
qed


lemma weekday_max_example:
  "weekday_max
     [\<lparr>Day_of_Week = ''Mon'', day_of_year = Num 12, average_time_min = Num 5\<rparr>,
      \<lparr>Day_of_Week = ''Mon'', day_of_year = Num 20, average_time_min = Num 10\<rparr>,
      \<lparr>Day_of_Week = ''Tue'', day_of_year = Num 13, average_time_min = Num 30\<rparr>] ''Mon'' = 10"
proof -
  have "{v::real. v = 5 \<or> v = 10} = {5, 10}" by auto
  then show ?thesis by (simp add: weekday_max_def)
qed

theorem normalization_percent_of_weekday_max_witness:
  "normalized_time
     (normalization
        [\<lparr>Day_of_Week = ''Mon'', day_of_year = Num 12, average_time_min = Num 5\<rparr>,
         \<lparr>Day_of_Week = ''Mon'', day_of_year = Num 20, average_time_min = Num 10\<rparr>,
         \<lparr>Day_of_Week = ''Tue'', day_of_year = Num 13, average_time_min = Num 30\<rparr>] ! 0) = Num 50"
proof -
  let ?ex = "[\<lparr>Day_of_Week = ''Mon'', day_of_year = Num 12, average_time_min = Num 5\<rparr>,
         \<lparr>Day_of_Week = ''Mon'', day_of_year = Num 20, average_time_min = Num 10\<rparr>,
         \<lparr>Day_of_Week = ''Tue'', day_of_year = Num 13, average_time_min = Num 30\<rparr>]"
  have h1: "0 < length ?ex" by simp
  have h2: "Day_of_Week (?ex ! 0) \<in> set DAY_ORDER" by (simp add: DAY_ORDER_def)
  have h3: "\<forall>e \<in> set ?ex. Day_of_Week e = Day_of_Week (?ex ! 0) \<longrightarrow>
              (\<exists>v. average_time_min e = Num v \<and> 0 < v)" by simp
  from normalization_percent_of_weekday_max [OF h1 h2 h3] obtain v where
    "average_time_min (?ex ! 0) = Num v"
    "normalized_time (normalization ?ex ! 0) = Num (v / weekday_max ?ex (Day_of_Week (?ex ! 0)) * 100)"
    by blast
  then show ?thesis by (simp add: weekday_max_example)
qed

text \<open>
  \<open>maxTimeByDay\<close> holds a maximum for the seven labels of \<open>DAY_ORDER\<close> only. A
  record with any other label reads \<open>undefined\<close> from it, and its
  \<open>normalized_time\<close> is \<open>NaN\<close>.
\<close>

lemma normalization_of_unlisted_label:
  assumes "i < length chartData" and "Day_of_Week (chartData ! i) \<notin> set DAY_ORDER"
  shows "normalized_time (normalization chartData ! i) = NaN"
proof -
  from assms(2) have "map_get (maxTimeByDay chartData) (Day_of_Week (chartData ! i)) = None"
    by (simp add: map_get_def maxTimeByDay_def map_of_tabulate)
  with assms(1) show ?thesis
    by (cases "average_time_min (chartData ! i)") (simp_all add: normalization_nth to_number_def)
qed

section \<open>Division by zero in cards 1 and 4\<close>

lemma div_by_zero_not_finite:
  "js_mul (js_div x (Num 0)) (Num 100) \<in> {NaN, PosInf, NegInf}"
  by (cases x) auto

lemma zero_by_zero_NaN:
  "js_mul (js_div (Num 0) (Num 0)) (Num 100) = NaN"
  by simp

text \<open>
  C3 as the code has it. Neither division is guarded. When the denominator is zero (the
  weekday's \<open>maxTime\<close> in the normalization pass, \<open>total_available\<close> in
  \<open>animateArc\<close>) nothing is thrown, and the result is not the number zero: it is
  \<open>NaN\<close> when the numerator is zero too, and \<open>NaN\<close> or an infinity in every case.
\<close>

theorem division_by_zero_is_not_guarded:
  "(total_available data = Num 0 \<longrightarrow>
      finalRateTotal data \<in> {NaN, PosInf, NegInf} \<and>
      finalRateGold data \<in> {NaN, PosInf, NegInf} \<and>
      (total_completed data = Num 0 \<longrightarrow> finalRateTotal data = NaN) \<and>
      (gold_star_completed data = Num 0 \<longrightarrow> finalRateGold data = NaN)) \<and>
   (i < length chartData \<and>
    map_get (maxTimeByDay chartData) (Day_of_Week (chartData ! i)) = Some (Num 0) \<longrightarrow>
      normalized_time (normalization chartData ! i) \<in> {NaN, PosInf, NegInf} \<and>
      (average_time_min (chartData ! i) = Num 0 \<longrightarrow>
         normalized_time (normalization chartData ! i) = NaN))"
proof (intro conjI impI)
  assume "total_available data = Num 0"
  then show "finalRateTotal data \<in> {NaN, PosInf, NegInf}"
    and "finalRateGold data \<in> {NaN, PosInf, NegInf}"
    using div_by_zero_not_finite by (simp_all add: finalRateTotal_def finalRateGold_def)
next
  assume "total_available data = Num 0" "total_completed data = Num 0"
  then show "finalRateTotal data = NaN" by (simp add: finalRateTotal_def)
next
  assume "total_available data = Num 0" "gold_star_completed data = Num 0"
  then show "finalRateGold data = NaN" by (simp add: finalRateGold_def)
next
  assume a: "i < length chartData \<and>
    map_get (maxTimeByDay chartData) (Day_of_Week (chartData ! i)) = Some (Num 0)"
  then show "normalized_time (normalization chartData ! i) \<in> {NaN, PosInf, NegInf}"
    using div_by_zero_not_finite [of "average_time_min (chartData ! i)"]
    by (simp add: normalization_nth to_number_def)
  assume "average_time_min (chartData ! i) = Num 0"
  with a show "normalized_time (normalization chartData ! i) = NaN"
    by (simp add: normalization_nth to_number_def)
qed

lemma zero_max_example:
  "map_get (maxTimeByDay
      [\<lparr>Day_of_Week = ''Mon'', day_of_year = Num 1, average_time_min = Num 0\<rparr>]) ''Mon''
   = Some (Num 0)"
  by (simp add: map_get_def maxTimeByDay_def DAY_ORDER_def d3_group_def get_or_empty_def
        d3_max_def js_ge_def)

theorem division_by_zero_is_not_guarded_witness:
  "finalRateTotal \<lparr>total_completed = Num 0, gold_star_completed = Num 0, total_available = Num 0\<rparr>
     = NaN \<and>
   normalized_time (normalization
      [\<lparr>Day_of_Week = ''Mon'', day_of_year = Num 1, average_time_min = Num 0\<rparr>] ! 0) = NaN"
  using division_by_zero_is_not_guarded
    [of "\<lparr>total_completed = Num 0, gold_star_completed = Num 0, total_available = Num 0\<rparr>"
        0 "[\<lparr>Day_of_Week = ''Mon'', day_of_year = Num 1, average_time_min = Num 0\<rparr>]"]
    zero_max_example
  by simp

theorem division_by_zero_counterexample:
  "map_get (maxTimeByDay
      [\<lparr>Day_of_Week = ''Mon'', day_of_year = Num 1, average_time_min = Num 0\<rparr>]) ''Mon''
     = Some (Num 0) \<and>
   normalized_time (normalization
      [\<lparr>Day_of_Week = ''Mon'', day_of_year = Num 1, average_time_min = Num 0\<rparr>] ! 0) \<noteq> Num 0 \<and>
   finalRateTotal \<lparr>total_completed = Num 0, gold_star_completed = Num 0, total_available = Num 0\<rparr>
     \<noteq> Num 0 \<and>
   finalRateTotal \<lparr>total_completed = Num 3, gold_star_completed = Num 1, total_available = Num 0\<rparr>
     = PosInf"
  by (simp add: zero_max_example normalization_nth to_number_def finalRateTotal_def)

section \<open>Card 4: the biggest improver\<close>

lemma improver_step_eq:
  "improver_step b (d, data) =
     (if length data > 1 \<and> js_lt (improvement b) (group_improvement data)
      then \<lparr>day = Some d, improvement = group_improvement data, dayName = map_of DAY_FULL_NAMES d\<rparr>
      else b)"
proof (cases "length data > 1")
  case True
  then have ne: "js_sort by_day_of_year data \<noteq> []"
    using length_js_sort [of by_day_of_year data] by auto
  then show ?thesis
    using True
    by (simp add: improver_step_def group_improvement_def Let_def js_gt_def
          hd_conv_nth last_conv_nth)
next
  case False
  then show ?thesis by (simp add: improver_step_def)
qed

lemma improver_step_not_NaN:
  "improvement b \<noteq> NaN \<Longrightarrow> improvement (improver_step b e) \<noteq> NaN"
  by (cases e) (auto simp: improver_step_eq dest: js_lt_not_NaN)

lemma foldl_improver_not_NaN:
  "improvement b \<noteq> NaN \<Longrightarrow> improvement (foldl improver_step b gs) \<noteq> NaN"
  by (induction gs arbitrary: b) (simp_all add: improver_step_not_NaN)

lemma improver_step_not_less:
  "\<not> js_lt (improvement (improver_step b e)) (improvement b)"
  by (cases e; cases "improvement b"; cases "group_improvement (snd e)")
     (auto simp: improver_step_eq)

lemma foldl_improver_not_less:
  "improvement b \<noteq> NaN \<Longrightarrow> \<not> js_lt (improvement (foldl improver_step b gs)) (improvement b)"
proof (induction gs arbitrary: b)
  case Nil
  then show ?case by (cases "improvement b") auto
next
  case (Cons e gs)
  let ?b' = "improver_step b e"
  from Cons.prems have n: "improvement ?b' \<noteq> NaN" by (rule improver_step_not_NaN)
  from Cons.IH [OF n] have 1: "\<not> js_lt (improvement (foldl improver_step ?b' gs)) (improvement ?b')" .
  have 2: "\<not> js_lt (improvement ?b') (improvement b)" by (rule improver_step_not_less)
  from js_not_lt_trans [OF n 1 2] show ?case by simp
qed

lemma foldl_improver_bounds:
  assumes "improvement b \<noteq> NaN" and "(d, data) \<in> set gs" and "length data > 1"
  shows "\<not> js_lt (improvement (foldl improver_step b gs)) (group_improvement data)"
  using assms
proof (induction gs arbitrary: b)
  case Nil
  then show ?case by simp
next
  case (Cons e gs)
  let ?b' = "improver_step b e"
  from Cons.prems(1) have n: "improvement ?b' \<noteq> NaN" by (rule improver_step_not_NaN)
  show ?case
  proof (cases "e = (d, data)")
    case True
    have 1: "\<not> js_lt (improvement (foldl improver_step ?b' gs)) (improvement ?b')"
      using n by (rule foldl_improver_not_less)
    have 2: "\<not> js_lt (improvement ?b') (group_improvement data)"
      using True Cons.prems(3)
      by (cases "improvement b"; cases "group_improvement data") (auto simp: improver_step_eq)
    from js_not_lt_trans [OF n 1 2] show ?thesis by simp
  next
    case False
    with Cons.prems(2) have "(d, data) \<in> set gs" by simp
    from Cons.IH [OF n this Cons.prems(3)] show ?thesis by simp
  qed
qed

lemma foldl_improver_origin:
  "foldl improver_step b gs = b \<or>
   (\<exists>(d, data) \<in> set gs. length data > 1 \<and>
      foldl improver_step b gs =
        \<lparr>day = Some d, improvement = group_improvement data, dayName = map_of DAY_FULL_NAMES d\<rparr>)"
proof (induction gs arbitrary: b)
  case Nil
  then show ?case by simp
next
  case (Cons e gs)
  obtain d data where e: "e = (d, data)" by (cases e)
  from Cons.IH [of "improver_step b e"] show ?case
  proof
    assume "foldl improver_step (improver_step b e) gs = improver_step b e"
    then show ?thesis by (auto simp: e improver_step_eq)
  next
    assume "\<exists>(d, data) \<in> set gs. length data > 1 \<and>
      foldl improver_step (improver_step b e) gs =
        \<lparr>day = Some d, improvement = group_improvement data, dayName = map_of DAY_FULL_NAMES d\<rparr>"
    then show ?thesis by auto
  qed
qed

lemma group_improvement_points:
  "group_improvement (points_of chartData d) = weekday_improvement chartData d"
  by (simp add: weekday_improvement_def)

lemma sorted_by_day_of_year:
  assumes "\<forall>e \<in> set data. isFinite (day_of_year e)"
  shows "sorted_wrt (\<lambda>a b. js_le (day_of_year a) (day_of_year b)) (js_sort by_day_of_year data) \<and>
         mset (js_sort by_day_of_year data) = mset data"
proof -
  define key where "key = (\<lambda>e::ntrend. case day_of_year e of Num r \<Rightarrow> r | _ \<Rightarrow> 0)"
  have num: "day_of_year e = Num (key e)" if "e \<in> set data" for e
    using that assms by (cases "day_of_year e") (auto simp: key_def)
  have "\<forall>x \<in> set data. \<forall>y \<in> set data.
          js_gt (by_day_of_year x y) (Num 0) = (\<not> key x \<le> key y)"
    by (auto simp: by_day_of_year_def js_gt_def num)
  then have eq: "js_sort by_day_of_year data = sort_key key data"
    by (rule js_sort_eq_sort_key)
  have "sorted (map key (sort_key key data))" by simp
  then have "sorted_wrt (\<lambda>a b. key a \<le> key b) (sort_key key data)"
    by (simp add: sorted_map)
  then have "sorted_wrt (\<lambda>a b. js_le (day_of_year a) (day_of_year b)) (sort_key key data)"
    by (rule sorted_wrt_mono_rel [rotated]) (simp add: num)
  with eq show ?thesis by simp
qed

text \<open>
  C2. The weekdays considered are those with at least two points. For a dataset whose
  \<open>day_of_year\<close> values are numbers, each such weekday's points are sorted ascending
  by \<open>day_of_year\<close> (a permutation of them, in order), and its improvement is the
  normalized value of the first minus that of the last. The weekday reported has at
  least two points, the improvement reported is that weekday's own improvement,
  negative or not, and no weekday with at least two points has a greater one. When no
  weekday is reported, none with two points has an improvement above \<open>-Infinity\<close>.
  When the normalized values are finite numbers, the reported improvement is the
  maximum in the usual order.
\<close>

theorem biggest_improver_is_maximal:
  assumes "\<forall>e \<in> set chartData. isFinite (day_of_year e)"
  shows
    "(\<forall>d. 2 \<le> length (points_of chartData d) \<longrightarrow>
        sorted_wrt (\<lambda>a b. js_le (day_of_year a) (day_of_year b))
          (js_sort by_day_of_year (points_of chartData d)) \<and>
        mset (js_sort by_day_of_year (points_of chartData d)) = mset (points_of chartData d)) \<and>
     (case day (biggestImprover chartData) of
        None \<Rightarrow>
          improvement (biggestImprover chartData) = NegInf \<and>
          (\<forall>d. 2 \<le> length (points_of chartData d) \<longrightarrow>
             \<not> js_gt (weekday_improvement chartData d) NegInf)
      | Some w \<Rightarrow>
          2 \<le> length (points_of chartData w) \<and>
          improvement (biggestImprover chartData) = weekday_improvement chartData w \<and>
          dayName (biggestImprover chartData) = map_of DAY_FULL_NAMES w \<and>
          (\<forall>d. 2 \<le> length (points_of chartData d) \<longrightarrow>
             \<not> js_gt (weekday_improvement chartData d)
                  (improvement (biggestImprover chartData)))) \<and>
     ((\<forall>e \<in> set chartData. isFinite (normalized_time e)) \<longrightarrow>
        (\<forall>d. 2 \<le> length (points_of chartData d) \<longrightarrow>
           day (biggestImprover chartData) \<noteq> None \<and>
           js_le (weekday_improvement chartData d) (improvement (biggestImprover chartData))))"
proof -
  let ?init = "\<lparr>day = None, improvement = NegInf, dayName = None\<rparr>"
  let ?gs = "d3_group Day_of_Week chartData"
  let ?r = "biggestImprover chartData"
  have r: "?r = foldl improver_step ?init ?gs" by (simp add: biggestImprover_def)
  have init: "improvement ?init \<noteq> NaN" by simp
  have rn: "improvement ?r \<noteq> NaN"
    unfolding r using init by (rule foldl_improver_not_NaN)
  have grp: "(d, points_of chartData d) \<in> set ?gs" if "2 \<le> length (points_of chartData d)" for d
  proof -
    from that have "points_of chartData d \<noteq> []" by auto
    then obtain e where "e \<in> set chartData" "Day_of_Week e = d"
      by (auto simp: points_of_def filter_empty_conv)
    then show ?thesis by (auto simp: in_d3_group_iff points_of_def)
  qed
  have bound: "\<not> js_gt (weekday_improvement chartData d) (improvement ?r)"
    if "2 \<le> length (points_of chartData d)" for d
  proof -
    from that have "length (points_of chartData d) > 1" by simp
    from foldl_improver_bounds [OF init grp [OF that] this]
    show ?thesis by (simp add: r js_gt_def group_improvement_points)
  qed
  have sorted: "\<forall>d. 2 \<le> length (points_of chartData d) \<longrightarrow>
        sorted_wrt (\<lambda>a b. js_le (day_of_year a) (day_of_year b))
          (js_sort by_day_of_year (points_of chartData d)) \<and>
        mset (js_sort by_day_of_year (points_of chartData d)) = mset (points_of chartData d)"
    using assms by (intro allI impI sorted_by_day_of_year) (simp add: points_of_def)
  have origin: "?r = ?init \<or>
     (\<exists>(d, data) \<in> set ?gs. length data > 1 \<and>
        ?r = \<lparr>day = Some d, improvement = group_improvement data,
               dayName = map_of DAY_FULL_NAMES d\<rparr>)"
    unfolding r by (rule foldl_improver_origin)
  have sel: "case day ?r of
        None \<Rightarrow>
          improvement ?r = NegInf \<and>
          (\<forall>d. 2 \<le> length (points_of chartData d) \<longrightarrow>
             \<not> js_gt (weekday_improvement chartData d) NegInf)
      | Some w \<Rightarrow>
          2 \<le> length (points_of chartData w) \<and>
          improvement ?r = weekday_improvement chartData w \<and>
          dayName ?r = map_of DAY_FULL_NAMES w \<and>
          (\<forall>d. 2 \<le> length (points_of chartData d) \<longrightarrow>
             \<not> js_gt (weekday_improvement chartData d) (improvement ?r))"
    using origin
  proof
    assume i: "?r = ?init"
    then have "day ?r = None" "improvement ?r = NegInf" by simp_all
    with bound show ?thesis by simp
  next
    assume "\<exists>(d, data) \<in> set ?gs. length data > 1 \<and>
        ?r = \<lparr>day = Some d, improvement = group_improvement data,
               dayName = map_of DAY_FULL_NAMES d\<rparr>"
    then obtain d data where g: "(d, data) \<in> set ?gs" "length data > 1"
      and rr: "?r = \<lparr>day = Some d, improvement = group_improvement data,
               dayName = map_of DAY_FULL_NAMES d\<rparr>"
      by blast
    from g(1) have data: "data = points_of chartData d"
      by (simp add: in_d3_group_iff points_of_def)
    from rr have f: "day ?r = Some d" "improvement ?r = group_improvement data"
      "dayName ?r = map_of DAY_FULL_NAMES d" by simp_all
    with g(2) data bound show ?thesis
      by (simp add: group_improvement_points)
  qed
  have fin: "day ?r \<noteq> None \<and> js_le (weekday_improvement chartData d) (improvement ?r)"
    if nf: "\<forall>e \<in> set chartData. isFinite (normalized_time e)"
      and two: "2 \<le> length (points_of chartData d)" for d
  proof -
    let ?s = "js_sort by_day_of_year (points_of chartData d)"
    have "mset ?s = mset (points_of chartData d)"
      using sorted two by blast
    then have set_s: "set ?s = set (points_of chartData d)" by (rule mset_eq_setD)
    from two have "points_of chartData d \<noteq> []" by auto
    with set_s have ne: "?s \<noteq> []" by auto
    then have "hd ?s \<in> set ?s" "last ?s \<in> set ?s" by simp_all
    with set_s have "hd ?s \<in> set chartData" "last ?s \<in> set chartData"
      by (auto simp: points_of_def)
    with nf have "isFinite (normalized_time (hd ?s))" "isFinite (normalized_time (last ?s))"
      by blast+
    then obtain a b where ab: "normalized_time (hd ?s) = Num a" "normalized_time (last ?s) = Num b"
      by (cases "normalized_time (hd ?s)"; cases "normalized_time (last ?s)") auto
    then have wi: "weekday_improvement chartData d = Num (a - b)"
      by (simp add: weekday_improvement_def group_improvement_def Let_def)
    from bound [OF two] have nl: "\<not> js_lt (improvement ?r) (Num (a - b))"
      by (simp add: wi js_gt_def)
    have "day ?r \<noteq> None"
    proof
      assume "day ?r = None"
      with sel have "improvement ?r = NegInf" by simp
      with nl show False by simp
    qed
    moreover from nl rn have "js_le (weekday_improvement chartData d) (improvement ?r)"
      by (simp add: wi js_not_lt_iff_le)
    ultimately show ?thesis ..
  qed
  from sorted sel fin show ?thesis by blast
qed

lemma improver_example:
  "day (biggestImprover
     [\<lparr>Day_of_Week = ''Mon'', day_of_year = Num 20, average_time_min = Num 10, normalized_time = Num 100\<rparr>,
      \<lparr>Day_of_Week = ''Wed'', day_of_year = Num 1, average_time_min = Num 7, normalized_time = Num 100\<rparr>,
      \<lparr>Day_of_Week = ''Mon'', day_of_year = Num 12, average_time_min = Num 5, normalized_time = Num 50\<rparr>])
   = Some ''Mon''"
  by (simp add: biggestImprover_def d3_group_def improver_step_def js_sort_def by_day_of_year_def
        js_gt_def Let_def)

lemma improvement_example:
  "weekday_improvement
     [\<lparr>Day_of_Week = ''Mon'', day_of_year = Num 20, average_time_min = Num 10, normalized_time = Num 100\<rparr>,
      \<lparr>Day_of_Week = ''Wed'', day_of_year = Num 1, average_time_min = Num 7, normalized_time = Num 100\<rparr>,
      \<lparr>Day_of_Week = ''Mon'', day_of_year = Num 12, average_time_min = Num 5, normalized_time = Num 50\<rparr>]
     ''Mon'' = Num (- 50)"
  by (simp add: weekday_improvement_def group_improvement_def points_of_def js_sort_def
        by_day_of_year_def js_gt_def Let_def)

theorem biggest_improver_is_maximal_witness:
  "improvement (biggestImprover
     [\<lparr>Day_of_Week = ''Mon'', day_of_year = Num 20, average_time_min = Num 10, normalized_time = Num 100\<rparr>,
      \<lparr>Day_of_Week = ''Wed'', day_of_year = Num 1, average_time_min = Num 7, normalized_time = Num 100\<rparr>,
      \<lparr>Day_of_Week = ''Mon'', day_of_year = Num 12, average_time_min = Num 5, normalized_time = Num 50\<rparr>])
   = Num (- 50)"
proof -
  let ?ex = "[\<lparr>Day_of_Week = ''Mon'', day_of_year = Num 20, average_time_min = Num 10, normalized_time = Num 100\<rparr>,
      \<lparr>Day_of_Week = ''Wed'', day_of_year = Num 1, average_time_min = Num 7, normalized_time = Num 100\<rparr>,
      \<lparr>Day_of_Week = ''Mon'', day_of_year = Num 12, average_time_min = Num 5, normalized_time = Num 50\<rparr>]"
  have h: "\<forall>e \<in> set ?ex. isFinite (day_of_year e)" by simp
  from biggest_improver_is_maximal [OF h]
  have "improvement (biggestImprover ?ex) = weekday_improvement ?ex ''Mon''"
    by (simp add: improver_example)
  then show ?thesis by (simp only: improvement_example)
qed

section \<open>Card 3: one frequency scale for all weekdays\<close>

lemma concat_map_if:
  "concat (map (\<lambda>x. if P x then [f x] else []) xs) = map f (filter P xs)"
  by (induction xs) auto

lemma coerced_days: "Day_of_Week ` set (coerced_bins fetched) = Day_of_Week ` set fetched"
  by (force simp: coerced_bins_def)

lemma renderCard3_eq:
  "renderCard3 fetched =
     map (\<lambda>d. renderDayHistogram (''histogram-'' @ d)
                (filter (\<lambda>b. Day_of_Week b = d) (coerced_bins fetched))
                (d3_max (map frequency (coerced_bins fetched))))
       (filter (\<lambda>d. d \<in> Day_of_Week ` set fetched) DAY_ORDER)"
proof -
  let ?raw = "coerced_bins fetched"
  let ?mx = "d3_max (map frequency ?raw)"
  have branch: "(case map_of (d3_group Day_of_Week ?raw) d of
           None \<Rightarrow> []
         | Some dayData \<Rightarrow>
             if length dayData > 0
             then [renderDayHistogram (''histogram-'' @ d) dayData ?mx]
             else []) =
        (if d \<in> Day_of_Week ` set fetched
         then [renderDayHistogram (''histogram-'' @ d)
                 (filter (\<lambda>b. Day_of_Week b = d) ?raw) ?mx]
         else [])" for d
  proof (cases "d \<in> Day_of_Week ` set ?raw")
    case True
    then have "filter (\<lambda>b. Day_of_Week b = d) ?raw \<noteq> []"
      by (auto simp: filter_empty_conv)
    with True show ?thesis by (simp add: map_of_d3_group coerced_days)
  next
    case False
    then show ?thesis by (simp add: map_of_d3_group coerced_days)
  qed
  show ?thesis
    unfolding renderCard3_def Let_def coerced_bins_def [symmetric] branch DAY_ORDER_def [symmetric]
    by (rule concat_map_if)
qed

lemma d3_max_all_finite:
  assumes "vs \<noteq> []" and "\<forall>v \<in> set vs. isFinite v"
  shows "d3_max vs = Some (Num (Max {f. Num f \<in> set vs}))"
proof -
  define rs where "rs = map (\<lambda>v. case v of Num r \<Rightarrow> r | _ \<Rightarrow> 0) vs"
  have "v = Num (case v of Num r \<Rightarrow> r | _ \<Rightarrow> 0)" if "v \<in> set vs" for v
  proof -
    from that assms(2) have "isFinite v" by blast
    then show ?thesis by (cases v) auto
  qed
  then have vs: "vs = map Num rs" by (simp add: rs_def map_idI)
  then have "set rs = {f. Num f \<in> set vs}" by auto
  moreover from assms(1) vs have "rs \<noteq> []" by auto
  ultimately show ?thesis using d3_max_Num [of rs] vs by simp
qed

text \<open>
  C4. The maximum frequency is computed once, over the bins of all weekdays, before any
  histogram is drawn. One histogram is drawn for each weekday of \<open>dayOrder\<close> that has
  bins, from that weekday's bins alone, and the y scale of every one of them is
  \<open>[0, maxFrequency * 1.1]\<close> with that one shared maximum; for numeric frequencies it
  is 1.1 times the greatest frequency of the whole artifact.
\<close>

theorem histograms_share_one_frequency_scale:
  "map containerId (renderCard3 fetched) =
     map (\<lambda>d. ''histogram-'' @ d) (filter (\<lambda>d. d \<in> Day_of_Week ` set fetched) DAY_ORDER) \<and>
   (\<forall>h \<in> set (renderCard3 fetched).
      y_domain h =
        (Num 0, js_mul (to_number (d3_max (map (\<lambda>b. coerceFloat (frequency b)) fetched)))
                  (Num (11 / 10))) \<and>
      (\<exists>d \<in> set DAY_ORDER.
         containerId h = ''histogram-'' @ d \<and>
         bars h = map (\<lambda>b. (bin_index b, coerceFloat (frequency b)))
                    (filter (\<lambda>b. Day_of_Week b = d) fetched))) \<and>
   ((\<forall>b \<in> set fetched. isFinite (coerceFloat (frequency b))) \<longrightarrow>
      (\<forall>h \<in> set (renderCard3 fetched).
         y_domain h = (Num 0, Num (max_frequency fetched * (11 / 10)))))"
proof (intro conjI ballI impI)
  show "map containerId (renderCard3 fetched) =
     map (\<lambda>d. ''histogram-'' @ d) (filter (\<lambda>d. d \<in> Day_of_Week ` set fetched) DAY_ORDER)"
    by (simp add: renderCard3_eq renderDayHistogram_def comp_def)
next
  fix h assume "h \<in> set (renderCard3 fetched)"
  then obtain d where d: "d \<in> set DAY_ORDER" "d \<in> Day_of_Week ` set fetched"
    and h: "h = renderDayHistogram (''histogram-'' @ d)
                (filter (\<lambda>b. Day_of_Week b = d) (coerced_bins fetched))
                (d3_max (map frequency (coerced_bins fetched)))"
    by (auto simp: renderCard3_eq)
  have freq: "map frequency (coerced_bins fetched) = map (\<lambda>b. coerceFloat (frequency b)) fetched"
    by (simp add: coerced_bins_def comp_def)
  from h show yd: "y_domain h =
        (Num 0, js_mul (to_number (d3_max (map (\<lambda>b. coerceFloat (frequency b)) fetched)))
                  (Num (11 / 10)))"
    by (simp add: renderDayHistogram_def freq)
  have "map (\<lambda>b. (bin_index b, frequency b)) (filter (\<lambda>b. Day_of_Week b = d) (coerced_bins fetched))
      = map (\<lambda>b. (bin_index b, coerceFloat (frequency b))) (filter (\<lambda>b. Day_of_Week b = d) fetched)"
    by (simp add: coerced_bins_def filter_map comp_def)
  with h d(1) show "\<exists>d \<in> set DAY_ORDER.
         containerId h = ''histogram-'' @ d \<and>
         bars h = map (\<lambda>b. (bin_index b, coerceFloat (frequency b)))
                    (filter (\<lambda>b. Day_of_Week b = d) fetched)"
    by (auto simp: renderDayHistogram_def)
  assume fin: "\<forall>b \<in> set fetched. isFinite (coerceFloat (frequency b))"
  from d(2) have ne: "map (\<lambda>b. coerceFloat (frequency b)) fetched \<noteq> []" by auto
  have "{f. Num f \<in> set (map (\<lambda>b. coerceFloat (frequency b)) fetched)}
      = {f. \<exists>d \<in> set fetched. coerceFloat (frequency d) = Num f}" by force
  with d3_max_all_finite [OF ne] fin
  have "d3_max (map (\<lambda>b. coerceFloat (frequency b)) fetched) = Some (Num (max_frequency fetched))"
    by (simp add: max_frequency_def)
  with yd show "y_domain h = (Num 0, Num (max_frequency fetched * (11 / 10)))"
    by (simp add: to_number_def)
qed

lemma histogram_example:
  "renderCard3
     [\<lparr>Day_of_Week = ''Tue'', bin_index = 0, frequency = JNum (Num 9)\<rparr>,
      \<lparr>Day_of_Week = ''Mon'', bin_index = 0, frequency = JStr '' 3''\<rparr>,
      \<lparr>Day_of_Week = ''Mon'', bin_index = 1, frequency = JNum (Num 5)\<rparr>]
   = [\<lparr>containerId = ''histogram-Mon'', y_domain = (Num 0, Num (99 / 10)),
       maxVal = Some (Num 5), bars = [(0, Num 3), (1, Num 5)]\<rparr>,
      \<lparr>containerId = ''histogram-Tue'', y_domain = (Num 0, Num (99 / 10)),
       maxVal = Some (Num 9), bars = [(0, Num 9)]\<rparr>]"
  by (simp add: renderCard3_def renderDayHistogram_def d3_group_def d3_max_def to_number_def
        js_ge_def Let_def coerceFloat_def String_nn_def trim_def parseFloat_def
        unsigned_decimal_def is_space_def is_digit_def starts_with_def digits_val_def
        digit_val_def)

lemma max_frequency_example:
  "max_frequency
     [\<lparr>Day_of_Week = ''Tue'', bin_index = 0, frequency = JNum (Num 9)\<rparr>,
      \<lparr>Day_of_Week = ''Mon'', bin_index = 0, frequency = JStr '' 3''\<rparr>,
      \<lparr>Day_of_Week = ''Mon'', bin_index = 1, frequency = JNum (Num 5)\<rparr>] = 9"
proof -
  have c: "coerceFloat (JStr '' 3'') = Num 3"
    by (simp add: coerceFloat_def String_nn_def trim_def parseFloat_def
        unsigned_decimal_def is_space_def is_digit_def starts_with_def digits_val_def
        digit_val_def)
  have n: "coerceFloat (JNum (Num 9)) = Num 9" "coerceFloat (JNum (Num 5)) = Num 5"
    by (simp_all add: coerceFloat_def)
  have "{f::real. f = 9 \<or> f = 3 \<or> f = 5} = {9, 3, 5}" by auto
  then show ?thesis by (simp add: max_frequency_def c n)
qed

theorem histograms_share_one_frequency_scale_witness:
  "map y_domain (renderCard3
     [\<lparr>Day_of_Week = ''Tue'', bin_index = 0, frequency = JNum (Num 9)\<rparr>,
      \<lparr>Day_of_Week = ''Mon'', bin_index = 0, frequency = JStr '' 3''\<rparr>,
      \<lparr>Day_of_Week = ''Mon'', bin_index = 1, frequency = JNum (Num 5)\<rparr>])
   = [(Num 0, Num (9 * (11 / 10))), (Num 0, Num (9 * (11 / 10)))] \<and>
   map maxVal (renderCard3
     [\<lparr>Day_of_Week = ''Tue'', bin_index = 0, frequency = JNum (Num 9)\<rparr>,
      \<lparr>Day_of_Week = ''Mon'', bin_index = 0, frequency = JStr '' 3''\<rparr>,
      \<lparr>Day_of_Week = ''Mon'', bin_index = 1, frequency = JNum (Num 5)\<rparr>])
   = [Some (Num 5), Some (Num 9)]"
proof -
  let ?ex = "[\<lparr>Day_of_Week = ''Tue'', bin_index = 0, frequency = JNum (Num 9)\<rparr>,
      \<lparr>Day_of_Week = ''Mon'', bin_index = 0, frequency = JStr '' 3''\<rparr>,
      \<lparr>Day_of_Week = ''Mon'', bin_index = 1, frequency = JNum (Num 5)\<rparr>]"
  have c: "coerceFloat (JStr '' 3'') = Num 3"
    by (simp add: coerceFloat_def String_nn_def trim_def parseFloat_def
        unsigned_decimal_def is_space_def is_digit_def starts_with_def digits_val_def
        digit_val_def)
  have fin: "\<forall>b \<in> set ?ex. isFinite (coerceFloat (frequency b))"
    by (simp add: c) (simp add: coerceFloat_def)
  from histograms_share_one_frequency_scale [of ?ex] fin
  have "\<forall>h \<in> set (renderCard3 ?ex). y_domain h = (Num 0, Num (max_frequency ?ex * (11 / 10)))"
    by blast
  then have "\<forall>h \<in> set (renderCard3 ?ex). y_domain h = (Num 0, Num (9 * (11 / 10)))"
    by (simp only: max_frequency_example)
  then have "map y_domain (renderCard3 ?ex) = map (\<lambda>h. (Num 0, Num (9 * (11 / 10)))) (renderCard3 ?ex)"
    by (intro map_cong) auto
  then show ?thesis by (simp add: histogram_example)
qed

section \<open>Cards 6 and 7: the fastest puzzle\<close>

lemma js_le_trans: "js_le a b \<Longrightarrow> js_le b c \<Longrightarrow> js_le a c"
  by (cases a; cases b; cases c) auto

lemma js_lt_imp_le: "js_lt a b \<Longrightarrow> js_le a b"
  by (cases a; cases b) auto

lemma js_le_refl: "a \<noteq> NaN \<Longrightarrow> js_le a a"
  by (cases a) auto

lemma ascending_self: "(ascending v v = Num 0) = (v \<noteq> NaN)"
  by (cases v) (auto simp: ascending_def js_gt_def js_ge_def)

lemma ascending_negative: "js_lt (ascending v m) (Num 0) = js_lt v m"
  by (auto simp: ascending_def)

lemma keep_less_Some:
  "keep_less f (Some b) d = (if js_lt (f d) (f b) then Some d else Some b)"
  by (simp add: keep_less_def)

lemma keep_less_None: "keep_less f None d = Some d"
  by (simp add: keep_less_def)

lemma reduce_fastest_eq:
  "reduce_fastest tableData =
     foldl (keep_less (\<lambda>d. parseDeviation (Deviation_Percent_Label d))) None tableData"
  unfolding reduce_fastest_def keep_less_def ..

lemma d3_least_loop_Some:
  "map_option fst (d3_least_loop f (Some (m, f m)) es) = foldl (keep_less f) (Some m) es"
  by (induction es arbitrary: m) (simp_all add: keep_less_Some ascending_negative Let_def)

lemma d3_least_eq_foldl:
  assumes "\<forall>x. f x \<noteq> NaN"
  shows "d3_least vs f = foldl (keep_less f) None vs"
proof (cases vs)
  case Nil
  then show ?thesis by (simp add: d3_least_def)
next
  case (Cons e es)
  with assms show ?thesis
    using d3_least_loop_Some [of f e es]
    by (simp add: d3_least_def ascending_self keep_less_None Let_def)
qed

lemma foldl_keep_less_min:
  assumes "\<forall>x. f x \<noteq> NaN"
  shows "\<exists>r. foldl (keep_less f) (Some m) es = Some r \<and> r \<in> set (m # es) \<and>
             js_le (f r) (f m) \<and> (\<forall>x \<in> set es. js_le (f r) (f x))"
proof (induction es arbitrary: m)
  case Nil
  from assms show ?case by (simp add: js_le_refl)
next
  case (Cons e es)
  show ?case
  proof (cases "js_lt (f e) (f m)")
    case True
    from Cons.IH [of e] obtain r where r: "foldl (keep_less f) (Some e) es = Some r"
      "r \<in> set (e # es)" "js_le (f r) (f e)" "\<forall>x \<in> set es. js_le (f r) (f x)" by blast
    from True have "js_le (f e) (f m)" by (rule js_lt_imp_le)
    with r(3) have "js_le (f r) (f m)" by (rule js_le_trans)
    with r True show ?thesis by (auto simp: keep_less_Some)
  next
    case False
    from Cons.IH [of m] obtain r where r: "foldl (keep_less f) (Some m) es = Some r"
      "r \<in> set (m # es)" "js_le (f r) (f m)" "\<forall>x \<in> set es. js_le (f r) (f x)" by blast
    from False assms have "js_le (f m) (f e)" by (simp add: js_not_lt_iff_le)
    with r(3) have "js_le (f r) (f e)" by (rule js_le_trans)
    with r False show ?thesis by (auto simp: keep_less_Some)
  qed
qed

lemma parseDeviation_cases:
  "parseDeviation label = (if parseable label
      then parseFloat (filter (\<lambda>c. is_digit c \<or> c = CHR ''.'' \<or> c = CHR ''-'') (the label))
      else PosInf)"
  by (cases label) (simp_all add: parseDeviation_def parseable_def Let_def)

lemma parseDeviation_not_NaN: "parseDeviation label \<noteq> NaN"
  by (cases label) (auto simp: parseDeviation_def Let_def)

lemma parseable_iff: "parseable label = isFinite (parseDeviation label)"
  by (cases label) (auto simp: parseDeviation_def parseable_def Let_def)

lemma fastestPuzzle_eq:
  "fastestPuzzle b tableData =
     foldl (keep_less (\<lambda>d. parseDeviation (Deviation_Percent_Label d))) None tableData"
  by (simp add: fastestPuzzle_def reduce_fastest_eq d3_least_eq_foldl parseDeviation_not_NaN)

lemma fastestPuzzle_min:
  assumes "tableData \<noteq> []"
  shows "\<exists>p. fastestPuzzle b tableData = Some p \<and> p \<in> set tableData \<and>
           (\<forall>d \<in> set tableData.
              js_le (parseDeviation (Deviation_Percent_Label p))
                    (parseDeviation (Deviation_Percent_Label d)))"
proof -
  from assms obtain m es where t: "tableData = m # es" by (cases tableData) auto
  let ?f = "\<lambda>d. parseDeviation (Deviation_Percent_Label d)"
  have "\<forall>x. ?f x \<noteq> NaN" by (simp add: parseDeviation_not_NaN)
  from foldl_keep_less_min [of ?f m es, OF this]
  show ?thesis by (auto simp: fastestPuzzle_eq t keep_less_None)
qed

text \<open>
  C5. For a non-empty fast-days array the puzzle selected is a record of the array whose
  parsed deviation is the least of all records (the most negative one). The replay data
  fetched is that record's \<open>puzzle_id\<close>; when the record has no \<open>puzzle_id\<close>
  (\<open>undefined\<close> or \<open>null\<close>, or any other falsy value) the replay is skipped and
  nothing is raised.
\<close>

theorem replay_uses_fastest_puzzle:
  assumes "tableData \<noteq> []"
  shows "\<exists>p. fastestPuzzle has_d3_least tableData = Some p \<and> p \<in> set tableData \<and>
           (\<forall>d \<in> set tableData.
              js_le (parseDeviation (Deviation_Percent_Label p))
                    (parseDeviation (Deviation_Percent_Label d))) \<and>
           renderCard7 has_d3_least tableData =
             (if js_truthy (puzzle_id p) then Fetch_completion (puzzle_id p) else No_puzzle_id) \<and>
           (puzzle_id p = JUndefined \<or> puzzle_id p = JNull \<longrightarrow>
              renderCard7 has_d3_least tableData = No_puzzle_id)"
proof -
  from fastestPuzzle_min [OF assms, of has_d3_least] obtain p where
    p: "fastestPuzzle has_d3_least tableData = Some p" "p \<in> set tableData"
      "\<forall>d \<in> set tableData.
              js_le (parseDeviation (Deviation_Percent_Label p))
                    (parseDeviation (Deviation_Percent_Label d))" by blast
  from assms p(1) have r: "renderCard7 has_d3_least tableData =
             (if js_truthy (puzzle_id p) then Fetch_completion (puzzle_id p) else No_puzzle_id)"
    by (simp add: renderCard7_def)
  then have "puzzle_id p = JUndefined \<or> puzzle_id p = JNull \<longrightarrow>
              renderCard7 has_d3_least tableData = No_puzzle_id" by auto
  with p r show ?thesis by blast
qed

text \<open>
  C9. \<open>_parseDeviation\<close> gives \<open>+Infinity\<close> for a label that is absent or does not
  read as a finite number, and a finite number otherwise; so when some record of the
  array has a parseable label, the record selected by \<open>renderCard6\<close> and
  \<open>renderCard7\<close> (on either branch) has a parseable label too.
\<close>

theorem unparseable_label_is_never_fastest:
  "(\<not> parseable label \<longrightarrow> parseDeviation label = PosInf) \<and>
   (parseable label \<longrightarrow> isFinite (parseDeviation label)) \<and>
   ((\<exists>d \<in> set tableData. parseable (Deviation_Percent_Label d)) \<longrightarrow>
      (\<exists>p. fastestPuzzle has_d3_least tableData = Some p \<and> p \<in> set tableData \<and>
           parseable (Deviation_Percent_Label p)))"
proof (intro conjI impI)
  show "parseDeviation label = PosInf" if "\<not> parseable label"
    using that by (simp add: parseDeviation_cases)
  show "isFinite (parseDeviation label)" if "parseable label"
    using that by (simp add: parseable_iff)
  assume "\<exists>d \<in> set tableData. parseable (Deviation_Percent_Label d)"
  then obtain d where d: "d \<in> set tableData" "isFinite (parseDeviation (Deviation_Percent_Label d))"
    by (auto simp: parseable_iff)
  then have "tableData \<noteq> []" by auto
  from fastestPuzzle_min [OF this, of has_d3_least] obtain p where
    p: "fastestPuzzle has_d3_least tableData = Some p" "p \<in> set tableData"
      "\<forall>d \<in> set tableData.
              js_le (parseDeviation (Deviation_Percent_Label p))
                    (parseDeviation (Deviation_Percent_Label d))" by blast
  with d(1) have "js_le (parseDeviation (Deviation_Percent_Label p))
                    (parseDeviation (Deviation_Percent_Label d))" by blast
  with d(2) have "isFinite (parseDeviation (Deviation_Percent_Label p))"
    using parseDeviation_not_NaN [of "Deviation_Percent_Label p"]
    by (cases "parseDeviation (Deviation_Percent_Label p)";
        cases "parseDeviation (Deviation_Percent_Label d)")
       (auto simp: parseDeviation_def Let_def split: option.splits if_splits)
  with p show "\<exists>p. fastestPuzzle has_d3_least tableData = Some p \<and> p \<in> set tableData \<and>
           parseable (Deviation_Percent_Label p)"
    by (auto simp: parseable_iff)
qed

lemmas parse_eval = parseDeviation_def parseable_def parseFloat_def unsigned_decimal_def
  exponent_part_def scale10_def starts_with_def digits_val_def digit_val_def is_space_def
  is_digit_def Let_def

lemma fastest_example:
  "fastestPuzzle True
     [\<lparr>Day_of_Week = ''Mon'', Date = ''2025-01-06'', Author = ''A'', Time_formatted = JStr ''4m 10s'',
       Deviation_Percent_Label = Some ''-10.5%'', puzzle_id = JNum (Num 100)\<rparr>,
      \<lparr>Day_of_Week = ''Sat'', Date = ''2025-02-01'', Author = ''B'', Time_formatted = JStr ''9m 02s'',
       Deviation_Percent_Label = Some ''-45.2%'', puzzle_id = JNum (Num 200)\<rparr>,
      \<lparr>Day_of_Week = ''Sun'', Date = ''2025-02-02'', Author = ''C'', Time_formatted = JNull,
       Deviation_Percent_Label = None, puzzle_id = JNum (Num 300)\<rparr>]
   = Some \<lparr>Day_of_Week = ''Sat'', Date = ''2025-02-01'', Author = ''B'', Time_formatted = JStr ''9m 02s'',
       Deviation_Percent_Label = Some ''-45.2%'', puzzle_id = JNum (Num 200)\<rparr>"
  by (simp add: fastestPuzzle_def d3_least_def ascending_def js_gt_def js_ge_def parse_eval)

theorem replay_uses_fastest_puzzle_witness:
  "renderCard7 True
     [\<lparr>Day_of_Week = ''Mon'', Date = ''2025-01-06'', Author = ''A'', Time_formatted = JStr ''4m 10s'',
       Deviation_Percent_Label = Some ''-10.5%'', puzzle_id = JNum (Num 100)\<rparr>,
      \<lparr>Day_of_Week = ''Sat'', Date = ''2025-02-01'', Author = ''B'', Time_formatted = JStr ''9m 02s'',
       Deviation_Percent_Label = Some ''-45.2%'', puzzle_id = JNum (Num 200)\<rparr>,
      \<lparr>Day_of_Week = ''Sun'', Date = ''2025-02-02'', Author = ''C'', Time_formatted = JNull,
       Deviation_Percent_Label = None, puzzle_id = JNum (Num 300)\<rparr>]
   = Fetch_completion (JNum (Num 200))"
proof -
  let ?ex = "[\<lparr>Day_of_Week = ''Mon'', Date = ''2025-01-06'', Author = ''A'', Time_formatted = JStr ''4m 10s'',
       Deviation_Percent_Label = Some ''-10.5%'', puzzle_id = JNum (Num 100)\<rparr>,
      \<lparr>Day_of_Week = ''Sat'', Date = ''2025-02-01'', Author = ''B'', Time_formatted = JStr ''9m 02s'',
       Deviation_Percent_Label = Some ''-45.2%'', puzzle_id = JNum (Num 200)\<rparr>,
      \<lparr>Day_of_Week = ''Sun'', Date = ''2025-02-02'', Author = ''C'', Time_formatted = JNull,
       Deviation_Percent_Label = None, puzzle_id = JNum (Num 300)\<rparr>]"
  have ne: "?ex \<noteq> []" by simp
  from replay_uses_fastest_puzzle [OF ne, of True] obtain p where
    p: "fastestPuzzle True ?ex = Some p"
    and r: "renderCard7 True ?ex =
             (if js_truthy (puzzle_id p) then Fetch_completion (puzzle_id p) else No_puzzle_id)"
    by blast
  from p have "p = \<lparr>Day_of_Week = ''Sat'', Date = ''2025-02-01'', Author = ''B'',
       Time_formatted = JStr ''9m 02s'',
       Deviation_Percent_Label = Some ''-45.2%'', puzzle_id = JNum (Num 200)\<rparr>"
    by (simp only: fastest_example option.inject)
  with r show ?thesis by simp
qed

theorem unparseable_label_is_never_fastest_witness:
  "parseDeviation (Some ''n/a'') = PosInf \<and>
   isFinite (parseDeviation (Some ''-3%'')) \<and>
   (\<exists>p. fastestPuzzle False
      [\<lparr>Day_of_Week = ''Mon'', Date = ''2025-01-06'', Author = ''A'', Time_formatted = JStr ''4m 10s'',
        Deviation_Percent_Label = Some ''n/a'', puzzle_id = JNum (Num 100)\<rparr>,
       \<lparr>Day_of_Week = ''Sat'', Date = ''2025-02-01'', Author = ''B'', Time_formatted = JStr ''9m 02s'',
        Deviation_Percent_Label = Some ''-3%'', puzzle_id = JNum (Num 200)\<rparr>] = Some p \<and>
      parseable (Deviation_Percent_Label p))"
proof -
  let ?ex = "[\<lparr>Day_of_Week = ''Mon'', Date = ''2025-01-06'', Author = ''A'', Time_formatted = JStr ''4m 10s'',
        Deviation_Percent_Label = Some ''n/a'', puzzle_id = JNum (Num 100)\<rparr>,
       \<lparr>Day_of_Week = ''Sat'', Date = ''2025-02-01'', Author = ''B'', Time_formatted = JStr ''9m 02s'',
        Deviation_Percent_Label = Some ''-3%'', puzzle_id = JNum (Num 200)\<rparr>]"
  have 1: "\<not> parseable (Some ''n/a'')" by (simp add: parse_eval)
  have 2: "parseable (Some ''-3%'')" by (simp add: parse_eval)
  then have 3: "\<exists>d \<in> set ?ex. parseable (Deviation_Percent_Label d)" by simp
  from unparseable_label_is_never_fastest [of "Some ''n/a''" ?ex False] 1
  have a: "parseDeviation (Some ''n/a'') = PosInf" by blast
  from unparseable_label_is_never_fastest [of "Some ''-3%''" ?ex False] 2 3
  have b: "isFinite (parseDeviation (Some ''-3%''))"
    and c: "\<exists>p. fastestPuzzle False ?ex = Some p \<and> p \<in> set ?ex \<and>
           parseable (Deviation_Percent_Label p)" by blast+
  from a b c show ?thesis by blast
qed

section \<open>Card 2: the weekday sort\<close>

lemma indexOf_found:
  "x \<in> set xs \<Longrightarrow> 0 \<le> indexOf xs x \<and> indexOf xs x < int (length xs) \<and>
     xs ! nat (indexOf xs x) = x"
proof (induction xs)
  case Nil
  then show ?case by simp
next
  case (Cons y ys)
  show ?case
  proof (cases "y = x")
    case True
    then show ?thesis by simp
  next
    case False
    with Cons.prems have "x \<in> set ys" by simp
    from Cons.IH [OF this] False show ?thesis
      by (simp add: Let_def nat_add_distrib)
  qed
qed

lemma indexOf_inj:
  "x \<in> set xs \<Longrightarrow> y \<in> set xs \<Longrightarrow> indexOf xs x = indexOf xs y \<Longrightarrow> x = y"
proof -
  assume x: "x \<in> set xs" and y: "y \<in> set xs" and e: "indexOf xs x = indexOf xs y"
  from indexOf_found [OF x] have 1: "xs ! nat (indexOf xs x) = x" by blast
  from indexOf_found [OF y] have 2: "xs ! nat (indexOf xs y) = y" by blast
  from 1 have "x = xs ! nat (indexOf xs x)" by (rule sym)
  also from e have "\<dots> = xs ! nat (indexOf xs y)" by (rule arg_cong)
  also note 2
  finally show "x = y" .
qed

lemma by_day_order_eq:
  "by_day_order a b = Num (of_int (day_index a - day_index b))"
  by (simp add: by_day_order_def day_index_def DAY_ORDER_def Let_def)

lemma by_day_order_gt:
  "js_gt (by_day_order a b) (Num 0) = (\<not> day_index a \<le> day_index b)"
  by (auto simp: by_day_order_eq js_gt_def)

lemma DAY_ORDER_indexes:
  "map (indexOf DAY_ORDER) DAY_ORDER = [0, 1, 2, 3, 4, 5, 6]"
  by (simp add: DAY_ORDER_def)

lemma length_DAY_ORDER: "int (length DAY_ORDER) = 7"
  by (simp add: DAY_ORDER_def)

lemma renderCard2_sort_eq: "renderCard2_sort chartData = sort_key day_index chartData"
  unfolding renderCard2_sort_def
  by (rule js_sort_eq_sort_key) (simp add: by_day_order_gt)

lemma day_index_inj_on:
  assumes "\<forall>e \<in> set xs. Day_of_Week e \<in> set DAY_ORDER" and "distinct (map Day_of_Week xs)"
  shows "inj_on day_index (set xs)"
proof (rule inj_onI)
  fix a b assume ab: "a \<in> set xs" "b \<in> set xs" "day_index a = day_index b"
  from ab(1,2) assms(1) have "Day_of_Week a \<in> set DAY_ORDER" "Day_of_Week b \<in> set DAY_ORDER"
    by blast+
  moreover from ab(3) have "indexOf DAY_ORDER (Day_of_Week a) = indexOf DAY_ORDER (Day_of_Week b)"
    by (simp add: day_index_def)
  ultimately have "Day_of_Week a = Day_of_Week b" by (rule indexOf_inj)
  moreover from assms(2) have "inj_on Day_of_Week (set xs)" by (simp add: distinct_map)
  ultimately show "a = b" using ab(1,2) by (blast dest: inj_onD)
qed

text \<open>
  C6 as the code has it. For an array whose labels are drawn from Mon to Sun, the sort
  returns a permutation of the array in Monday-to-Sunday order (each label's position
  in the weekday order is between 0 and 6, and the positions never decrease). When,
  in addition, no two entries share a label, the result is the same for every
  permutation of the array, and its labels are the weekday order restricted to the
  labels present.
\<close>

theorem weekday_sort_is_canonical:
  assumes "\<forall>e \<in> set chartData. Day_of_Week e \<in> set DAY_ORDER"
  shows "mset (renderCard2_sort chartData) = mset chartData \<and>
         sorted (map day_index (renderCard2_sort chartData)) \<and>
         (\<forall>e \<in> set (renderCard2_sort chartData). 0 \<le> day_index e \<and> day_index e \<le> 6) \<and>
         (distinct (map Day_of_Week chartData) \<longrightarrow>
            (\<forall>other. mset other = mset chartData \<longrightarrow>
               renderCard2_sort other = renderCard2_sort chartData) \<and>
            map Day_of_Week (renderCard2_sort chartData) =
              filter (\<lambda>d. d \<in> Day_of_Week ` set chartData) DAY_ORDER)"
proof (intro conjI impI allI ballI)
  show "mset (renderCard2_sort chartData) = mset chartData"
    by (simp add: renderCard2_sort_eq)
  show "sorted (map day_index (renderCard2_sort chartData))"
    by (simp add: renderCard2_sort_eq)
next
  fix e assume "e \<in> set (renderCard2_sort chartData)"
  then have "e \<in> set chartData" by (simp add: renderCard2_sort_eq)
  with assms have "Day_of_Week e \<in> set DAY_ORDER" by blast
  from indexOf_found [OF this] length_DAY_ORDER
  show "0 \<le> day_index e" "day_index e \<le> 6"
    by (simp_all add: day_index_def)
next
  fix other assume d: "distinct (map Day_of_Week chartData)"
    and m: "mset other = mset chartData"
  from m have s: "set other = set chartData" by (rule mset_eq_setD)
  from assms d have inj: "inj_on day_index (set chartData)" by (rule day_index_inj_on)
  from d have dc: "distinct chartData" by (simp add: distinct_map)
  with m have dother: "distinct other" by (metis mset_eq_imp_distinct_iff)
  let ?a = "map day_index (sort_key day_index other)"
  let ?b = "map day_index (sort_key day_index chartData)"
  have sa: "sorted ?a" and sb: "sorted ?b" by simp_all
  have da: "distinct ?a" and db: "distinct ?b"
    using inj dc dother s by (simp_all add: distinct_map)
  have "set ?a = set ?b" using s by simp
  with sa da sb db have "?a = ?b" by (rule sorted_distinct_set_unique)
  moreover have "inj_on day_index (set (sort_key day_index other) \<union> set (sort_key day_index chartData))"
    using inj s by simp
  ultimately have "sort_key day_index other = sort_key day_index chartData"
    by (simp add: inj_on_map_eq_map)
  then show "renderCard2_sort other = renderCard2_sort chartData"
    by (simp add: renderCard2_sort_eq)
next
  assume d: "distinct (map Day_of_Week chartData)"
  let ?present = "filter (\<lambda>d. d \<in> Day_of_Week ` set chartData) DAY_ORDER"
  let ?ix = "indexOf DAY_ORDER"
  have ix_sorted: "sorted (map ?ix DAY_ORDER)" "distinct (map ?ix DAY_ORDER)"
    by (simp_all only: DAY_ORDER_indexes) simp_all
  from ix_sorted(1) have 1: "sorted (map ?ix ?present)" by (rule sorted_filter)
  from ix_sorted(2) have 2: "distinct (map ?ix ?present)"
    by (simp add: distinct_map_filter)
  from assms d have inj: "inj_on day_index (set chartData)" by (rule day_index_inj_on)
  from d have dc: "distinct chartData" by (simp add: distinct_map)
  let ?s = "sort_key day_index chartData"
  have e: "map ?ix (map Day_of_Week xs) = map day_index xs" for xs :: "weekday_stats list"
    by (simp add: day_index_def)
  have 3: "sorted (map ?ix (map Day_of_Week ?s))"
    unfolding e by simp
  have 4: "distinct (map ?ix (map Day_of_Week ?s))"
    unfolding e using inj dc by (simp add: distinct_map)
  have "Day_of_Week ` set chartData = set ?present"
    using assms by (simp only: set_filter) blast
  moreover have "set (map Day_of_Week ?s) = Day_of_Week ` set chartData" by simp
  ultimately have "set (map Day_of_Week ?s) = set ?present" by (rule trans [rotated])
  then have 5: "set (map ?ix (map Day_of_Week ?s)) = set (map ?ix ?present)"
    by (simp only: set_map)
  from 3 4 1 2 5 have "map ?ix (map Day_of_Week ?s) = map ?ix ?present"
    by (intro sorted_distinct_set_unique)
  moreover have "inj_on ?ix (set (map Day_of_Week ?s) \<union> set ?present)"
  proof (rule inj_on_subset)
    show "inj_on ?ix (set DAY_ORDER)"
      by (rule inj_onI) (rule indexOf_inj)
    have "Day_of_Week ` set chartData \<subseteq> set DAY_ORDER"
    proof (rule image_subsetI)
      fix x assume "x \<in> set chartData"
      with assms show "Day_of_Week x \<in> set DAY_ORDER" by (rule bspec)
    qed
    moreover have "set (map Day_of_Week ?s) = Day_of_Week ` set chartData" by simp
    moreover have "set ?present \<subseteq> set DAY_ORDER" by (rule filter_is_subset)
    ultimately show "set (map Day_of_Week ?s) \<union> set ?present \<subseteq> set DAY_ORDER"
      by (simp only: Un_subset_iff)
  qed
  ultimately have "map Day_of_Week ?s = ?present"
    by (simp only: inj_on_map_eq_map)
  then show "map Day_of_Week (renderCard2_sort chartData) = ?present"
    by (simp add: renderCard2_sort_eq)
qed

theorem weekday_sort_is_canonical_witness:
  "renderCard2_sort
     [\<lparr>Day_of_Week = ''Sun'', average_in_minutes = Num 30, slowest_in_minutes = Num 50\<rparr>,
      \<lparr>Day_of_Week = ''Wed'', average_in_minutes = Num 9, slowest_in_minutes = Num 14\<rparr>,
      \<lparr>Day_of_Week = ''Mon'', average_in_minutes = Num 5, slowest_in_minutes = Num 8\<rparr>]
   = renderCard2_sort
     [\<lparr>Day_of_Week = ''Wed'', average_in_minutes = Num 9, slowest_in_minutes = Num 14\<rparr>,
      \<lparr>Day_of_Week = ''Mon'', average_in_minutes = Num 5, slowest_in_minutes = Num 8\<rparr>,
      \<lparr>Day_of_Week = ''Sun'', average_in_minutes = Num 30, slowest_in_minutes = Num 50\<rparr>] \<and>
   map Day_of_Week (renderCard2_sort
     [\<lparr>Day_of_Week = ''Wed'', average_in_minutes = Num 9, slowest_in_minutes = Num 14\<rparr>,
      \<lparr>Day_of_Week = ''Mon'', average_in_minutes = Num 5, slowest_in_minutes = Num 8\<rparr>,
      \<lparr>Day_of_Week = ''Sun'', average_in_minutes = Num 30, slowest_in_minutes = Num 50\<rparr>])
   = [''Mon'', ''Wed'', ''Sun'']"
proof -
  let ?w = "\<lparr>Day_of_Week = ''Wed'', average_in_minutes = Num 9, slowest_in_minutes = Num 14\<rparr>"
  let ?m = "\<lparr>Day_of_Week = ''Mon'', average_in_minutes = Num 5, slowest_in_minutes = Num 8\<rparr>"
  let ?s = "\<lparr>Day_of_Week = ''Sun'', average_in_minutes = Num 30, slowest_in_minutes = Num 50\<rparr>"
  have h: "\<forall>e \<in> set [?w, ?m, ?s]. Day_of_Week e \<in> set DAY_ORDER"
    by (simp add: DAY_ORDER_def)
  have d: "distinct (map Day_of_Week [?w, ?m, ?s])" by simp
  have p: "mset [?s, ?w, ?m] = mset [?w, ?m, ?s]" by simp
  have f: "filter (\<lambda>d. d \<in> Day_of_Week ` set [?w, ?m, ?s]) DAY_ORDER = [''Mon'', ''Wed'', ''Sun'']"
    by (simp add: DAY_ORDER_def)
  note c = weekday_sort_is_canonical
    [OF h, THEN conjunct2, THEN conjunct2, THEN conjunct2, THEN mp, OF d]
  from c [THEN conjunct1, THEN spec, THEN mp, OF p]
  have r1: "renderCard2_sort [?s, ?w, ?m] = renderCard2_sort [?w, ?m, ?s]" .
  from c [THEN conjunct2]
  have "map Day_of_Week (renderCard2_sort [?w, ?m, ?s]) =
          filter (\<lambda>d. d \<in> Day_of_Week ` set [?w, ?m, ?s]) DAY_ORDER" .
  also note f
  finally have r2: "map Day_of_Week (renderCard2_sort [?w, ?m, ?s]) = [''Mon'', ''Wed'', ''Sun'']" .
  from r1 r2 show ?thesis by (rule conjI)
qed

theorem weekday_sort_permutation_counterexample:
  "mset [\<lparr>Day_of_Week = ''Mon'', average_in_minutes = Num 6, slowest_in_minutes = Num 10\<rparr>,
         \<lparr>Day_of_Week = ''Mon'', average_in_minutes = Num 5, slowest_in_minutes = Num 9\<rparr>]
   = mset [\<lparr>Day_of_Week = ''Mon'', average_in_minutes = Num 5, slowest_in_minutes = Num 9\<rparr>,
           \<lparr>Day_of_Week = ''Mon'', average_in_minutes = Num 6, slowest_in_minutes = Num 10\<rparr>] \<and>
   ''Mon'' \<in> set DAY_ORDER \<and>
   renderCard2_sort
     [\<lparr>Day_of_Week = ''Mon'', average_in_minutes = Num 6, slowest_in_minutes = Num 10\<rparr>,
      \<lparr>Day_of_Week = ''Mon'', average_in_minutes = Num 5, slowest_in_minutes = Num 9\<rparr>]
   \<noteq> renderCard2_sort
     [\<lparr>Day_of_Week = ''Mon'', average_in_minutes = Num 5, slowest_in_minutes = Num 9\<rparr>,
      \<lparr>Day_of_Week = ''Mon'', average_in_minutes = Num 6, slowest_in_minutes = Num 10\<rparr>]"
  by (simp add: DAY_ORDER_def renderCard2_sort_def js_sort_def by_day_order_def js_gt_def Let_def)

section \<open>\<open>formatTimeToMMSS\<close>\<close>

lemma space_not_digit: "is_space c \<Longrightarrow> \<not> is_digit c"
  by (auto simp: is_space_def is_digit_def)

lemma letters_not_classes:
  "\<not> is_digit (CHR ''m'')" "\<not> is_space (CHR ''m'')"
  "\<not> is_digit (CHR ''s'')" "\<not> is_space (CHR ''s'')"
  by (simp_all add: is_space_def is_digit_def)

lemma scan_run:
  assumes "\<forall>c \<in> set xs. P c" and "r = [] \<or> \<not> P (hd r)"
  shows "takeWhile P (xs @ r) = xs" and "dropWhile P (xs @ r) = r"
proof -
  from assms(2) have t: "takeWhile P r = []" and d: "dropWhile P r = r"
    by (cases r; simp)+
  from assms(1) show "takeWhile P (xs @ r) = xs"
    by (simp add: takeWhile_append2 t)
  from assms(1) show "dropWhile P (xs @ r) = r"
    by (simp add: dropWhile_append2 d)
qed

lemma spaces_then:
  assumes "\<forall>c \<in> set w. is_space c" and "\<not> is_space x"
  shows "dropWhile is_space (w @ x # r) = x # r"
  using assms by (intro scan_run(2)) simp_all

lemma digits_then_spaces:
  assumes "\<forall>c \<in> set ds. is_digit c" and "\<forall>c \<in> set w. is_space c" and "\<not> is_digit x"
  shows "takeWhile is_digit (ds @ w @ x # r) = ds"
    and "dropWhile is_digit (ds @ w @ x # r) = w @ x # r"
proof -
  have "w @ x # r = [] \<or> \<not> is_digit (hd (w @ x # r))"
    using assms(2,3) by (cases w) (simp_all add: space_not_digit)
  with assms(1) show "takeWhile is_digit (ds @ w @ x # r) = ds"
    and "dropWhile is_digit (ds @ w @ x # r) = w @ x # r"
    by (rule scan_run)+
qed

lemma has_time_at_imp_match_here:
  assumes "has_time_at s m sec"
  shows "match_here s = Some (m, sec)"
proof -
  from assms obtain w1 w2 w3 rest where
    s: "s = m @ w1 @ ''m'' @ w2 @ sec @ w3 @ ''s'' @ rest"
    and ne: "m \<noteq> []" "sec \<noteq> []"
    and dm: "\<forall>c \<in> set m. is_digit c" and ds: "\<forall>c \<in> set sec. is_digit c"
    and sp: "\<forall>c \<in> set w1. is_space c" "\<forall>c \<in> set w2. is_space c" "\<forall>c \<in> set w3. is_space c"
    unfolding has_time_at_def by blast
  let ?r2 = "w2 @ sec @ w3 @ CHR ''s'' # rest"
  let ?r3 = "sec @ w3 @ CHR ''s'' # rest"
  have s': "s = m @ w1 @ CHR ''m'' # ?r2" by (simp add: s)
  have 1: "takeWhile is_digit s = m" "dropWhile is_digit s = w1 @ CHR ''m'' # ?r2"
    unfolding s' using dm sp(1) letters_not_classes(1) by (rule digits_then_spaces)+
  have 2: "dropWhile is_space (w1 @ CHR ''m'' # ?r2) = CHR ''m'' # ?r2"
    using sp(1) letters_not_classes(2) by (rule spaces_then)
  from ne(2) obtain d sec' where sec: "sec = d # sec'" by (cases sec) auto
  with ds have "is_digit d" by simp
  then have nsd: "\<not> is_space d" using space_not_digit by blast
  have 3: "dropWhile is_space ?r2 = ?r3"
    using spaces_then [OF sp(2) nsd, of "sec' @ w3 @ CHR ''s'' # rest"] by (simp add: sec)
  have 4: "takeWhile is_digit ?r3 = sec" "dropWhile is_digit ?r3 = w3 @ CHR ''s'' # rest"
    using ds sp(3) letters_not_classes(3) by (rule digits_then_spaces)+
  have 5: "dropWhile is_space (w3 @ CHR ''s'' # rest) = CHR ''s'' # rest"
    using sp(3) letters_not_classes(4) by (rule spaces_then)
  show ?thesis
    by (simp add: match_here_def Let_def 1 2 3 4 5 ne)
qed

lemma match_here_imp_has_time_at:
  assumes "match_here s = Some (m, sec)"
  shows "has_time_at s m sec"
proof -
  let ?a = "dropWhile is_digit s"
  let ?w1 = "takeWhile is_space ?a"
  from assms have d1: "takeWhile is_digit s \<noteq> []"
    by (auto simp: match_here_def Let_def split: if_splits)
  with assms obtain r2 where r2: "dropWhile is_space ?a = CHR ''m'' # r2"
    by (auto simp: match_here_def Let_def split: if_splits list.splits)
  let ?r3 = "dropWhile is_space r2"
  let ?b = "dropWhile is_digit ?r3"
  from assms d1 r2 have d2: "takeWhile is_digit ?r3 \<noteq> []"
    by (auto simp: match_here_def Let_def split: if_splits)
  with assms d1 r2 obtain r5 where r5: "dropWhile is_space ?b = CHR ''s'' # r5"
    by (auto simp: match_here_def Let_def split: if_splits list.splits)
  from assms d1 r2 d2 r5 have ms: "m = takeWhile is_digit s" "sec = takeWhile is_digit ?r3"
    by (auto simp: match_here_def Let_def split: if_splits)
  have "s = takeWhile is_digit s @ ?a" by simp
  also have "?a = ?w1 @ dropWhile is_space ?a" by simp
  also have "dropWhile is_space ?a = ''m'' @ r2" by (simp add: r2)
  also have "r2 = takeWhile is_space r2 @ ?r3" by simp
  also have "?r3 = takeWhile is_digit ?r3 @ ?b" by simp
  also have "?b = takeWhile is_space ?b @ dropWhile is_space ?b" by simp
  also have "dropWhile is_space ?b = ''s'' @ r5" by (simp add: r5)
  finally have "s = m @ ?w1 @ ''m'' @ takeWhile is_space r2 @ sec @ takeWhile is_space ?b @ ''s'' @ r5"
    by (simp only: ms)
  moreover have "\<forall>c \<in> set m. is_digit c" "\<forall>c \<in> set sec. is_digit c"
    unfolding ms by (auto dest: set_takeWhileD)
  moreover have "\<forall>c \<in> set ?w1. is_space c" "\<forall>c \<in> set (takeWhile is_space r2). is_space c"
    "\<forall>c \<in> set (takeWhile is_space ?b). is_space c"
    by (auto dest: set_takeWhileD)
  moreover from d1 d2 have "m \<noteq> []" "sec \<noteq> []" by (simp_all add: ms)
  ultimately show ?thesis unfolding has_time_at_def by blast
qed

lemma match_here_iff: "match_here s = Some (m, sec) \<longleftrightarrow> has_time_at s m sec"
  using has_time_at_imp_match_here match_here_imp_has_time_at by blast

lemma match_here_None_iff: "match_here s = None \<longleftrightarrow> (\<forall>m sec. \<not> has_time_at s m sec)"
proof
  assume "match_here s = None"
  then show "\<forall>m sec. \<not> has_time_at s m sec"
    using has_time_at_imp_match_here by fastforce
next
  assume a: "\<forall>m sec. \<not> has_time_at s m sec"
  show "match_here s = None"
  proof (cases "match_here s")
    case None
    then show ?thesis .
  next
    case (Some p)
    obtain m sec where "p = (m, sec)" by (cases p)
    with Some have "has_time_at s m sec" by (simp add: match_here_imp_has_time_at)
    with a show ?thesis by blast
  qed
qed

lemma regex_match_found:
  assumes "has_time_at post m sec"
  shows "regex_match (pre @ post) \<noteq> None"
proof (induction pre)
  case Nil
  from assms have mh: "match_here post = Some (m, sec)" by (rule has_time_at_imp_match_here)
  from assms have "post \<noteq> []" by (auto simp: has_time_at_def)
  then obtain c cs where "post = c # cs" by (cases post) auto
  with mh show ?case by simp
next
  case (Cons c pre)
  then show ?case by (cases "match_here (c # pre @ post)") simp_all
qed

lemma regex_match_leftmost:
  "regex_match s = Some (m, sec) \<Longrightarrow> leftmost_time s m sec"
proof (induction s)
  case Nil
  then show ?case by simp
next
  case (Cons c cs)
  show ?case
  proof (cases "match_here (c # cs)")
    case (Some p)
    with Cons.prems have "match_here (c # cs) = Some (m, sec)" by simp
    then have "has_time_at (c # cs) m sec" by (rule match_here_imp_has_time_at)
    then have "c # cs = [] @ (c # cs) \<and> has_time_at (c # cs) m sec \<and>
        (\<forall>pre' post' m' sec'.
           c # cs = pre' @ post' \<and> length pre' < length ([]::string) \<longrightarrow>
             \<not> has_time_at post' m' sec')" by simp
    then show ?thesis unfolding leftmost_time_def by blast
  next
    case None
    with Cons.prems have "regex_match cs = Some (m, sec)" by simp
    from Cons.IH [OF this] obtain pre post where
      p: "cs = pre @ post" "has_time_at post m sec"
      and l: "\<forall>pre' post' m' sec'.
           cs = pre' @ post' \<and> length pre' < length pre \<longrightarrow> \<not> has_time_at post' m' sec'"
      unfolding leftmost_time_def by blast
    have "\<not> has_time_at post' m' sec'"
      if q: "c # cs = pre' @ post'" "length pre' < length (c # pre)" for pre' post' m' sec'
    proof (cases pre')
      case Nil
      with q(1) have "post' = c # cs" by simp
      with None show ?thesis by (simp add: match_here_None_iff)
    next
      case (Cons c' pre'')
      with q have "cs = pre'' @ post'" "length pre'' < length pre" by simp_all
      with l show ?thesis by blast
    qed
    then have "c # cs = (c # pre) @ post \<and> has_time_at post m sec \<and>
        (\<forall>pre' post' m' sec'.
           c # cs = pre' @ post' \<and> length pre' < length (c # pre) \<longrightarrow>
             \<not> has_time_at post' m' sec')"
      using p by simp
    then show ?thesis unfolding leftmost_time_def by blast
  qed
qed

lemma regex_match_None_iff: "regex_match s = None \<longleftrightarrow> \<not> has_time s"
proof
  assume n: "regex_match s = None"
  show "\<not> has_time s"
  proof
    assume "has_time s"
    then obtain pre post m sec where "s = pre @ post" "has_time_at post m sec"
      unfolding has_time_def by blast
    with regex_match_found [of post m sec pre] n show False by simp
  qed
next
  assume h: "\<not> has_time s"
  show "regex_match s = None"
  proof (cases "regex_match s")
    case None
    then show ?thesis .
  next
    case (Some p)
    obtain m sec where "p = (m, sec)" by (cases p)
    with Some have "leftmost_time s m sec" by (simp add: regex_match_leftmost)
    then have "has_time s" unfolding leftmost_time_def has_time_def by blast
    with h show ?thesis by blast
  qed
qed

text \<open>
  C8. \<open>formatTimeToMMSS\<close> returns a string for every falsy argument and for every
  string. A falsy argument (the empty string among them) gives \<open>00:00\<close>. A non-empty
  string in which the pattern does not occur is returned unchanged. A string in which
  it occurs gives, for the groups \<open>m\<close> and \<open>sec\<close> of the leftmost occurrence, the
  minutes with one leading zero removed when they have more than one digit, a colon,
  and the seconds padded on the left with \<open>0\<close> to two characters at least.
\<close>

theorem formatTimeToMMSS_total:
  "(\<not> js_truthy v \<longrightarrow> formatTimeToMMSS v = Inr ''00:00'') \<and>
   (\<exists>r. formatTimeToMMSS (JStr s) = Inr r) \<and>
   (s \<noteq> [] \<and> \<not> has_time s \<longrightarrow> formatTimeToMMSS (JStr s) = Inr s) \<and>
   (has_time s \<longrightarrow>
      (\<exists>m sec. leftmost_time s m sec \<and>
         formatTimeToMMSS (JStr s) =
           Inr ((if 1 < length m \<and> hd m = CHR ''0'' then tl m else m) @ '':'' @
                replicate (2 - length sec) (CHR ''0'') @ sec) \<and>
         2 \<le> length (replicate (2 - length sec) (CHR ''0'') @ sec)))"
proof (intro conjI impI)
  show "formatTimeToMMSS v = Inr ''00:00''" if "\<not> js_truthy v"
    using that by (simp add: formatTimeToMMSS_def)
  show "\<exists>r. formatTimeToMMSS (JStr s) = Inr r"
    by (cases "regex_match s") (auto simp: formatTimeToMMSS_def Let_def)
  show "formatTimeToMMSS (JStr s) = Inr s" if "s \<noteq> [] \<and> \<not> has_time s"
    using that by (simp add: formatTimeToMMSS_def regex_match_None_iff [symmetric])
next
  assume h: "has_time s"
  then have "regex_match s \<noteq> None" by (simp add: regex_match_None_iff)
  then obtain m sec where r: "regex_match s = Some (m, sec)" by (cases "regex_match s") auto
  then have l: "leftmost_time s m sec" by (rule regex_match_leftmost)
  then have "m \<noteq> []" unfolding leftmost_time_def has_time_at_def by blast
  then have hd0: "starts_with m ''0'' = (hd m = CHR ''0'')"
    by (cases m) (simp_all add: starts_with_def)
  from h have "s \<noteq> []" unfolding has_time_def has_time_at_def by auto
  with r hd0 have "formatTimeToMMSS (JStr s) =
           Inr ((if 1 < length m \<and> hd m = CHR ''0'' then tl m else m) @ '':'' @
                replicate (2 - length sec) (CHR ''0'') @ sec)"
    by (simp add: formatTimeToMMSS_def Let_def padStart_def drop_Suc)
  moreover have "2 \<le> length (replicate (2 - length sec) (CHR ''0'') @ sec)" by simp
  ultimately show "\<exists>m sec. leftmost_time s m sec \<and>
         formatTimeToMMSS (JStr s) =
           Inr ((if 1 < length m \<and> hd m = CHR ''0'' then tl m else m) @ '':'' @
                replicate (2 - length sec) (CHR ''0'') @ sec) \<and>
         2 \<le> length (replicate (2 - length sec) (CHR ''0'') @ sec)"
    using l by blast
qed

lemma leftmost_time_unique:
  assumes "leftmost_time s m sec" and "leftmost_time s m' sec'"
  shows "m = m' \<and> sec = sec'"
proof -
  from assms(1) obtain pre post where
    p: "s = pre @ post" "has_time_at post m sec"
    and l: "\<forall>pre' post' m' sec'.
           s = pre' @ post' \<and> length pre' < length pre \<longrightarrow> \<not> has_time_at post' m' sec'"
    unfolding leftmost_time_def by blast
  from assms(2) obtain pre' post' where
    p': "s = pre' @ post'" "has_time_at post' m' sec'"
    and l': "\<forall>pre'' post'' m'' sec''.
           s = pre'' @ post'' \<and> length pre'' < length pre' \<longrightarrow> \<not> has_time_at post'' m'' sec''"
    unfolding leftmost_time_def by blast
  from l p' have "\<not> length pre' < length pre" by blast
  moreover from l' p have "\<not> length pre < length pre'" by blast
  ultimately have "length pre = length pre'" by simp
  with p(1) p'(1) have "post = post'" by (metis append_eq_append_conv)
  with p'(2) have "has_time_at post m' sec'" by simp
  then have "match_here post = Some (m', sec')" by (rule has_time_at_imp_match_here)
  moreover from p(2) have "match_here post = Some (m, sec)" by (rule has_time_at_imp_match_here)
  ultimately show ?thesis by simp
qed

lemmas match_eval = match_here_def is_digit_def is_space_def Let_def

theorem formatTimeToMMSS_total_witness:
  "formatTimeToMMSS (JStr '''') = Inr ''00:00'' \<and>
   formatTimeToMMSS (JStr ''n/a'') = Inr ''n/a'' \<and>
   formatTimeToMMSS (JStr ''007m 5s'') = Inr ''07:05''"
proof -
  have f: "\<not> js_truthy (JStr '''')" by simp
  from formatTimeToMMSS_total [of "JStr ''''" "''''", THEN conjunct1, THEN mp, OF f]
  have 1: "formatTimeToMMSS (JStr '''') = Inr ''00:00''" .
  have "regex_match ''n/a'' = None" by (simp add: match_eval)
  then have "\<not> has_time ''n/a''" by (rule iffD1 [OF regex_match_None_iff])
  moreover have "''n/a'' \<noteq> []" by simp
  ultimately have n: "''n/a'' \<noteq> [] \<and> \<not> has_time ''n/a''" by (rule conjI [rotated])
  from formatTimeToMMSS_total [of "JStr ''''" "''n/a''", THEN conjunct2, THEN conjunct2,
      THEN conjunct1, THEN mp, OF n]
  have 2: "formatTimeToMMSS (JStr ''n/a'') = Inr ''n/a''" .
  have r: "regex_match ''007m 5s'' = Some (''007'', ''5'')" by (simp add: match_eval)
  then have lm: "leftmost_time ''007m 5s'' ''007'' ''5''" by (rule regex_match_leftmost)
  from r have h: "has_time ''007m 5s''" using regex_match_None_iff [of "''007m 5s''"] by simp
  from formatTimeToMMSS_total [of "JStr ''''" "''007m 5s''", THEN conjunct2, THEN conjunct2,
      THEN conjunct2, THEN mp, OF h] obtain m sec where
    l: "leftmost_time ''007m 5s'' m sec"
    and g: "formatTimeToMMSS (JStr ''007m 5s'') =
           Inr ((if 1 < length m \<and> hd m = CHR ''0'' then tl m else m) @ '':'' @
                replicate (2 - length sec) (CHR ''0'') @ sec)"
    by blast
  from leftmost_time_unique [OF l lm] have "m = ''007''" "sec = ''5''" by simp_all
  with g have 3: "formatTimeToMMSS (JStr ''007m 5s'') = Inr ''07:05''"
    by (simp add: numeral_2_eq_2)
  from 1 2 3 show ?thesis by blast
qed

section \<open>Card 4: a second pass over the same records\<close>














lemmas int_eval = coerceInt_def String_nn_def trim_def parseInt_def starts_with_def
  digits_val_def digit_val_def is_space_def is_digit_def Let_def



lemma bit_length_21_nines: "bit_length 999999999999999999999 = 70"
  by (simp add: bit_length.simps)

lemma round_to_double_21_nines: "round_to_double 999999999999999999999 = Num (10 ^ 21)"
  by (simp add: round_to_double_def bit_length_21_nines Let_def)

text \<open>A tie goes to the even significand: \<open>2^53 + 1\<close> down, \<open>2^53 + 3\<close> up.\<close>

lemma round_to_double_ties_to_even:
  "round_to_double 9007199254740993 = Num 9007199254740992 \<and>
   round_to_double 9007199254740995 = Num 9007199254740996"
  by (simp add: round_to_double_def bit_length.simps Let_def)


text \<open>
  The integer read is rounded to the nearest double: 21 nines are below \<open>10^21\<close> and
  are read as \<open>10^21\<close>.
\<close>

lemma coerceInt_21_nines:
  "coerceInt (JStr ''999999999999999999999'') = Num (10 ^ 21)"
proof -
  have "coerceInt (JStr ''999999999999999999999'') =
        js_mul (Num 1) (round_to_double 999999999999999999999)"
    by (simp add: int_eval)
  also have "\<dots> = Num (10 ^ 21)" by (simp only: round_to_double_21_nines js_mul.simps mult_1)
  finally show ?thesis .
qed




section \<open>Slide navigation stays in range\<close>

lemma smod_nonneg: "0 \<le> a \<Longrightarrow> a smod (9::int) = a mod 9"
  by (simp add: signed_modulo_int_def sgn_if)

lemma small_index:
  "0 \<le> i \<Longrightarrow> i < 9 \<Longrightarrow>
   i = 0 \<or> i = 1 \<or> i = 2 \<or> i = 3 \<or> i = 4 \<or> i = 5 \<or> i = 6 \<or> i = 7 \<or> i = (8::int)"
  by arith

lemma next_index: "in_range i \<Longrightarrow> (i + 1) smod totalCards = (i + 1) mod 9"
  by (simp add: in_range_def totalCards_def smod_nonneg)

lemma prev_index: "in_range i \<Longrightarrow> (i - 1 + totalCards) smod totalCards = (i - 1 + 9) mod 9"
  by (simp add: in_range_def totalCards_def smod_nonneg)

lemma in_range_mod: "in_range (a mod 9)"
  by (simp add: in_range_def totalCards_def)

lemma after_call_in_range: "in_range i \<Longrightarrow> in_range (after_call doc c i)"
  by (cases c) (simp_all add: nextCard_def prevCard_def next_index prev_index in_range_mod)

lemma after_calls_in_range: "in_range i \<Longrightarrow> in_range (after_calls doc cs i)"
  by (induction cs arbitrary: i) (simp_all add: after_call_in_range)

lemma next_prev_mod: "0 \<le> i \<Longrightarrow> i < 9 \<Longrightarrow> ((i + 1) mod 9 - 1 + 9) mod 9 = (i::int)"
  using small_index [of i] by auto

lemma prev_next_mod: "0 \<le> i \<Longrightarrow> i < 9 \<Longrightarrow> ((i - 1 + 9) mod 9 + 1) mod 9 = (i::int)"
  using small_index [of i] by auto

lemma next_then_prev:
  assumes "in_range i" and "nextCard doc i = Inr j" and "prevCard doc j = Inr k"
  shows "k = i"
proof -
  from assms(1) have i: "0 \<le> i" "i < 9"
    by (simp_all add: in_range_def totalCards_def)
  from assms(1,2) have j: "j = (i + 1) mod 9"
    by (simp add: nextCard_def next_index split: if_splits)
  then have "in_range j" by (simp add: in_range_mod)
  with assms(3) have "k = (j - 1 + 9) mod 9"
    by (simp add: prevCard_def prev_index split: if_splits)
  also from j have "\<dots> = ((i + 1) mod 9 - 1 + 9) mod 9" by (rule arg_cong)
  also from i have "\<dots> = i" by (rule next_prev_mod)
  finally show ?thesis .
qed

lemma prev_then_next:
  assumes "in_range i" and "prevCard doc i = Inr j" and "nextCard doc j = Inr k"
  shows "k = i"
proof -
  from assms(1) have i: "0 \<le> i" "i < 9"
    by (simp_all add: in_range_def totalCards_def)
  from assms(1,2) have j: "j = (i - 1 + 9) mod 9"
    by (simp add: prevCard_def prev_index split: if_splits)
  then have "in_range j" by (simp add: in_range_mod)
  with assms(3) have "k = (j + 1) mod 9"
    by (simp add: nextCard_def next_index split: if_splits)
  also from j have "\<dots> = ((i - 1 + 9) mod 9 + 1) mod 9" by (rule arg_cong)
  also from i have "\<dots> = i" by (rule prev_next_mod)
  finally show ?thesis .
qed

text \<open>
  C10. Starting from index 0, after every finite sequence of \<open>nextCard\<close> and
  \<open>prevCard\<close> calls the index is in \<open>0..8\<close>; and from every such index, a
  \<open>nextCard\<close> followed by a \<open>prevCard\<close>, or a \<open>prevCard\<close> followed by a
  \<open>nextCard\<close>, gives the index back.
\<close>

theorem card_index_in_range_and_round_trip:
  "0 \<le> after_calls doc cs 0 \<and> after_calls doc cs 0 \<le> 8 \<and>
   (\<forall>j k. nextCard doc (after_calls doc cs 0) = Inr j \<and> prevCard doc j = Inr k
          \<longrightarrow> k = after_calls doc cs 0) \<and>
   (\<forall>j k. prevCard doc (after_calls doc cs 0) = Inr j \<and> nextCard doc j = Inr k
          \<longrightarrow> k = after_calls doc cs 0)"
proof -
  have r: "in_range (after_calls doc cs 0)"
    by (rule after_calls_in_range) (simp add: in_range_def totalCards_def)
  then have "0 \<le> after_calls doc cs 0 \<and> after_calls doc cs 0 \<le> 8"
    by (simp add: in_range_def totalCards_def)
  moreover have "\<forall>j k. nextCard doc (after_calls doc cs 0) = Inr j \<and> prevCard doc j = Inr k
          \<longrightarrow> k = after_calls doc cs 0"
    using next_then_prev [OF r] by blast
  moreover have "\<forall>j k. prevCard doc (after_calls doc cs 0) = Inr j \<and> nextCard doc j = Inr k
          \<longrightarrow> k = after_calls doc cs 0"
    using prev_then_next [OF r] by blast
  ultimately show ?thesis by blast
qed

theorem card_index_in_range_and_round_trip_witness:
  "after_calls (\<lambda>i. True) [Next, Next, Prev, Prev, Prev] 0 = 8 \<and>
   nextCard (\<lambda>i. True) 8 = Inr 0 \<and> prevCard (\<lambda>i. True) 0 = Inr 8 \<and>
   prevCard (\<lambda>i. True) 8 = Inr 7 \<and> nextCard (\<lambda>i. True) 7 = Inr 8"
  using card_index_in_range_and_round_trip [of "\<lambda>i. True" "[Next, Next, Prev, Prev, Prev]"]
  by (simp add: nextCard_def prevCard_def totalCards_def smod_nonneg)

end
